theory Spec2Isabelle
  imports Main "HOL-Library.AList"
begin

section \<open>DataConvert: the value model and the host language's primitives\<close>

text \<open>
  The program is Python.  A \<open>char\<close> stands for one code point below 256, a
  \<open>string\<close> for a Python \<open>str\<close> over such code points.  A Python \<open>dict\<close>
  is an association list in insertion order: \<open>AList.update\<close> overwrites the value of
  a key that is present and appends one that is not, as \<open>d[k] = v\<close> does.

  Floating point is not modelled: the type of floats is the parameter \<open>'f\<close>, and
  what the interpreter does with floats is a field of the record \<open>host\<close>.  The
  interpreter's stack is not modelled either: a recursion of the program that would run
  out of it is carried through here.
\<close>

datatype 'f pyval =
    PNone
  | PBool bool
  | PInt int
  | PFloat 'f
  | PStr string
  | PList "'f pyval list"
  | PDict "(string \<times> 'f pyval) list"

text \<open>
  \<open>xml.etree.ElementTree.Element\<close>: tag, attrib, text and the child elements.
  The parser builds a \<open>string element\<close>, whose attribute names and values are
  texts; \<open>_dict_to_element\<close> copies whatever it is given into \<open>attrib\<close>, names
  and values alike, and builds a \<open>'f pyval element\<close>.
\<close>

datatype 'a element =
  Element (tag: string) (attrib: "('a \<times> 'a) list") (text_of: "string option")
    (children: "'a element list")

datatype error =
    UnsupportedFormat string  \<comment> \<open>\<open>ValueError("Unsupported ... format: ...")\<close>\<close>
  | ValueError
  | TypeError
  | AttributeError
  | KeyError
  | Delegated string  \<comment> \<open>raised inside \<open>json\<close>, \<open>csv\<close> or \<open>xml\<close>\<close>

text \<open>
  \<open>int_max_str_digits\<close> is \<open>sys.get_int_max_str_digits()\<close>: 4300 unless it is
  set otherwise, and 0, which switches the limit off, on an interpreter that has none.
\<close>

record 'f host =
  float_of :: "string \<Rightarrow> 'f option"  \<comment> \<open>\<open>float(s)\<close>; \<open>None\<close> is its ValueError\<close>
  str_float :: "'f \<Rightarrow> string"  \<comment> \<open>\<open>str(x)\<close> of a float\<close>
  float_truthy :: "'f \<Rightarrow> bool"  \<comment> \<open>\<open>bool(x)\<close> of a float\<close>
  float_eq :: "'f \<Rightarrow> 'f \<Rightarrow> bool"  \<comment> \<open>\<open>x == y\<close> of two floats\<close>
  float_eq_int :: "'f \<Rightarrow> int \<Rightarrow> bool"  \<comment> \<open>\<open>x == i\<close> of a float and an int\<close>
  str_container :: "'f pyval \<Rightarrow> string option"
    \<comment> \<open>\<open>str(x)\<close> of a list or a dict; \<open>None\<close> is its ValueError\<close>
  int_max_str_digits :: nat

subsection \<open>\<open>str\<close> methods\<close>

text \<open>\<open>str.isspace\<close> on one code point below 256.\<close>

definition is_space :: "char \<Rightarrow> bool" where
  "is_space c \<longleftrightarrow> List.member
     [CHR 0x09, CHR 0x0A, CHR 0x0B, CHR 0x0C, CHR 0x0D, CHR 0x1C, CHR 0x1D, CHR 0x1E,
      CHR 0x1F, CHR 0x20, CHR 0x85, CHR 0xA0] c"

text \<open>\<open>str.isdecimal\<close> and \<open>str.isdigit\<close> on one code point below 256: the
  superscripts two, three and one are digits and not decimals.\<close>

definition is_decimal :: "char \<Rightarrow> bool" where
  "is_decimal c \<longleftrightarrow> List.member ''0123456789'' c"

definition is_digit :: "char \<Rightarrow> bool" where
  "is_digit c \<longleftrightarrow> is_decimal c \<or> List.member [CHR 0xB2, CHR 0xB3, CHR 0xB9] c"

definition isdigit :: "string \<Rightarrow> bool" where
  "isdigit s \<longleftrightarrow> s \<noteq> [] \<and> list_all is_digit s"

definition lstrip :: "string \<Rightarrow> string" where
  "lstrip s = dropWhile is_space s"

definition rstrip :: "string \<Rightarrow> string" where
  "rstrip s = rev (dropWhile is_space (rev s))"

definition strip :: "string \<Rightarrow> string" where
  "strip s = rstrip (lstrip s)"

definition startswith :: "string \<Rightarrow> string \<Rightarrow> bool" where
  "startswith s p \<longleftrightarrow> take (length p) s = p"

definition endswith :: "string \<Rightarrow> string \<Rightarrow> bool" where
  "endswith s p \<longleftrightarrow> drop (length s - length p) s = p \<and> length p \<le> length s"

text \<open>\<open>s.split(c)\<close> for a one-character separator; \<open>cur\<close> is the piece being read.\<close>

fun split_acc :: "char \<Rightarrow> string \<Rightarrow> string \<Rightarrow> string list" where
  "split_acc c cur [] = [cur]"
| "split_acc c cur (x # xs) =
     (if x = c then cur # split_acc c [] xs else split_acc c (cur @ [x]) xs)"

definition split_nl :: "string \<Rightarrow> string list" where
  "split_nl s = split_acc (CHR 0x0A) [] s"

text \<open>\<open>key, val = s.split(':', 1)\<close>, for an \<open>s\<close> that holds a colon.\<close>

definition before_colon :: "string \<Rightarrow> string" where
  "before_colon s = takeWhile (\<lambda>c. c \<noteq> CHR '':'') s"

definition after_colon :: "string \<Rightarrow> string" where
  "after_colon s = drop 1 (dropWhile (\<lambda>c. c \<noteq> CHR '':'') s)"

fun join_nl :: "string list \<Rightarrow> string" where
  "join_nl [] = []"
| "join_nl [x] = x"
| "join_nl (x # y # ys) = x @ CHR 0x0A # join_nl (y # ys)"

text \<open>\<open>s.replace(old, new, 1)\<close>.\<close>

fun replace1 :: "string \<Rightarrow> string \<Rightarrow> string \<Rightarrow> string" where
  "replace1 old new [] = (if old = [] then new else [])"
| "replace1 old new (x # xs) =
     (if startswith (x # xs) old then new @ drop (length old) (x # xs)
      else x # replace1 old new xs)"

subsection \<open>\<open>int\<close> and \<open>str\<close>\<close>

definition digit_char :: "nat \<Rightarrow> char" where
  "digit_char d = ''0123456789'' ! d"

definition digit_val :: "char \<Rightarrow> nat" where
  "digit_val c = of_char c - 48"

fun str_nat :: "nat \<Rightarrow> string" where
  "str_nat n = (if n < 10 then [digit_char n] else str_nat (n div 10) @ [digit_char (n mod 10)])"

text \<open>
  The limit on the conversion between \<open>int\<close> and \<open>str\<close>: a text of more than
  \<open>int_max_str_digits\<close> digits is refused with ValueError, in either direction.
  The interpreter looks at the limit only when there are more than 640 digits, the
  least limit that can be set.  The sign does not count, leading zeros do.
\<close>

definition too_many_digits :: "'f host \<Rightarrow> nat \<Rightarrow> bool" where
  "too_many_digits H n \<longleftrightarrow> 640 < n \<and> 0 < int_max_str_digits H \<and> int_max_str_digits H < n"

text \<open>\<open>str(i)\<close>.\<close>

definition str_int :: "'f host \<Rightarrow> int \<Rightarrow> error + string" where
  "str_int H i =
     (let digits = str_nat (nat \<bar>i\<bar>) in
      if too_many_digits H (length digits) then Inl ValueError
      else Inr (if i < 0 then CHR ''-'' # digits else digits))"

text \<open>\<open>int(s)\<close> for an \<open>s\<close> with \<open>s.isdigit()\<close>: a superscript digit is no
  decimal literal, and \<open>int\<close> raises ValueError on it.\<close>

definition int_of_digits :: "'f host \<Rightarrow> string \<Rightarrow> error + int" where
  "int_of_digits H s =
     (if list_all is_decimal s \<and> \<not> too_many_digits H (length s)
      then Inr (int (fold (\<lambda>c n. 10 * n + digit_val c) s 0))
      else Inl ValueError)"

definition py_str :: "'f host \<Rightarrow> 'f pyval \<Rightarrow> error + string" where
  "py_str H v =
     (case v of
        PNone \<Rightarrow> Inr ''None''
      | PBool b \<Rightarrow> Inr (if b then ''True'' else ''False'')
      | PInt i \<Rightarrow> str_int H i
      | PFloat x \<Rightarrow> Inr (str_float H x)
      | PStr s \<Rightarrow> Inr s
      | PList xs \<Rightarrow> (case str_container H v of None \<Rightarrow> Inl ValueError | Some s \<Rightarrow> Inr s)
      | PDict kvs \<Rightarrow> (case str_container H v of None \<Rightarrow> Inl ValueError | Some s \<Rightarrow> Inr s))"

text \<open>No integer inside the value is beyond the digit limit.\<close>

fun ints_fit :: "'f host \<Rightarrow> 'f pyval \<Rightarrow> bool" where
  "ints_fit H (PInt i) = (\<not> too_many_digits H (length (str_nat (nat \<bar>i\<bar>))))"
| "ints_fit H (PList xs) = list_all (ints_fit H) xs"
| "ints_fit H (PDict kvs) = list_all (\<lambda>(k, v). ints_fit H v) kvs"
| "ints_fit H v = True"

text \<open>\<open>isinstance(v, (dict, list))\<close>.\<close>

fun is_container :: "'f pyval \<Rightarrow> bool" where
  "is_container (PList xs) = True"
| "is_container (PDict kvs) = True"
| "is_container v = False"

text \<open>Truth value of a Python object, as \<open>if not data\<close> tests it.\<close>

fun truthy :: "'f host \<Rightarrow> 'f pyval \<Rightarrow> bool" where
  "truthy H PNone = False"
| "truthy H (PBool b) = b"
| "truthy H (PInt i) = (i \<noteq> 0)"
| "truthy H (PFloat x) = float_truthy H x"
| "truthy H (PStr s) = (s \<noteq> [])"
| "truthy H (PList xs) = (xs \<noteq> [])"
| "truthy H (PDict kvs) = (kvs \<noteq> [])"

section \<open>SimpleYAML\<close>

subsection \<open>\<open>SimpleYAML._parse_value\<close>\<close>

definition parse_value :: "'f host \<Rightarrow> string \<Rightarrow> error + 'f pyval" where
  "parse_value H v =
     (if v = [] \<or> v = ''null'' then Inr PNone
      else if v = ''true'' then Inr (PBool True)
      else if v = ''false'' then Inr (PBool False)
      else if isdigit v then
        (case int_of_digits H v of Inl e \<Rightarrow> Inl e | Inr i \<Rightarrow> Inr (PInt i))
      else
        (case float_of H v of
           Some x \<Rightarrow> Inr (PFloat x)
         | None \<Rightarrow>
             if (startswith v [CHR 0x22] \<and> endswith v [CHR 0x22]) \<or>
                (startswith v [CHR 0x27] \<and> endswith v [CHR 0x27])
             then Inr (PStr (take (length v - 2) (drop 1 v)))
             else Inr (PStr v)))"

subsection \<open>\<open>SimpleYAML._parse_lines\<close>\<close>

text \<open>\<open>len(line) - len(line.lstrip())\<close>.\<close>

definition indent_of :: "string \<Rightarrow> nat" where
  "indent_of line = length line - length (lstrip line)"

text \<open>The inner \<open>while\<close> collects a line into \<open>sub_lines\<close> until
  \<open>sub_indent <= line_indent and sub_line.strip()\<close>.\<close>

definition in_block :: "nat \<Rightarrow> string \<Rightarrow> bool" where
  "in_block line_indent sub_line \<longleftrightarrow>
     \<not> (indent_of sub_line \<le> line_indent \<and> strip sub_line \<noteq> [])"

text \<open>\<open>return list_items if list_items else result\<close>.\<close>

definition finish :: "(string \<times> 'f pyval) list \<Rightarrow> 'f pyval list \<Rightarrow> 'f pyval" where
  "finish result list_items = (if list_items \<noteq> [] then PList list_items else PDict result)"

text \<open>
  The outer \<open>while\<close> of \<open>_parse_lines\<close>.  The list argument is \<open>lines[i:]\<close>:
  the loop only reads \<open>lines[i]\<close> and what follows it.  \<open>result\<close> and
  \<open>list_items\<close> are the two accumulators.
\<close>

function parse_loop ::
  "'f host \<Rightarrow> nat \<Rightarrow> string list \<Rightarrow> (string \<times> 'f pyval) list \<Rightarrow> 'f pyval list
     \<Rightarrow> error + 'f pyval"
where
  "parse_loop H indent [] result list_items = Inr (finish result list_items)"
| "parse_loop H indent (line # rest) result list_items =
     (let stripped = strip line in
      if stripped = [] \<or> startswith stripped ''#'' then
        parse_loop H indent rest result list_items
      else
        let line_indent = indent_of line in
        if line_indent < indent then Inr (finish result list_items)
        else if line_indent > indent then parse_loop H indent rest result list_items
        else if startswith stripped ''- '' then
          (let val = strip (drop 2 stripped) in
           if CHR '':'' \<in> set val then
             (case parse_value H (strip (after_colon val)) of
                Inl e \<Rightarrow> Inl e
              | Inr v \<Rightarrow>
                  parse_loop H indent rest result
                    (list_items @ [PDict [(strip (before_colon val), v)]]))
           else
             (case parse_value H val of
                Inl e \<Rightarrow> Inl e
              | Inr v \<Rightarrow> parse_loop H indent rest result (list_items @ [v])))
        else if CHR '':'' \<in> set stripped then
          (let key = strip (before_colon stripped);
               val = strip (after_colon stripped) in
           if val \<noteq> [] then
             (case parse_value H val of
                Inl e \<Rightarrow> Inl e
              | Inr v \<Rightarrow> parse_loop H indent rest (AList.update key v result) list_items)
           else
             (case rest of
                [] \<Rightarrow> parse_loop H indent rest (AList.update key PNone result) list_items
              | next_line # _ \<Rightarrow>
                  let next_indent = indent_of next_line in
                  if next_indent > line_indent then
                    (case parse_loop H next_indent (takeWhile (in_block line_indent) rest) [] [] of
                       Inl e \<Rightarrow> Inl e
                     | Inr v \<Rightarrow>
                         parse_loop H indent (dropWhile (in_block line_indent) rest)
                           (AList.update key v result) list_items)
                  else parse_loop H indent rest result list_items))
        else parse_loop H indent rest result list_items)"
  by pat_completeness auto
termination
  by (relation "measure (\<lambda>(H, indent, lines, result, list_items). length lines)")
     (auto simp: less_Suc_eq_le intro!: le_SucI length_takeWhile_le length_dropWhile_le)

definition parse_lines :: "'f host \<Rightarrow> string list \<Rightarrow> nat \<Rightarrow> error + 'f pyval" where
  "parse_lines H lines indent = parse_loop H indent lines [] []"

text \<open>\<open>SimpleYAML.parse\<close>.\<close>

definition parse :: "'f host \<Rightarrow> string \<Rightarrow> error + 'f pyval" where
  "parse H txt = parse_lines H (split_nl (strip txt)) 0"

subsection \<open>\<open>SimpleYAML._serialize_value\<close> and \<open>SimpleYAML.serialize\<close>\<close>

definition serialize_value :: "'f host \<Rightarrow> 'f pyval \<Rightarrow> error + string" where
  "serialize_value H v =
     (case v of
        PNone \<Rightarrow> Inr ''null''
      | PBool b \<Rightarrow> Inr (if b then ''true'' else ''false'')
      | PStr s \<Rightarrow>
          (if CHR '' '' \<in> set s \<or> CHR '':'' \<in> set s then Inr ([CHR 0x22] @ s @ [CHR 0x22])
           else py_str H v)
      | _ \<Rightarrow> py_str H v)"

text \<open>\<open>'  ' * indent\<close>.\<close>

definition ind :: "nat \<Rightarrow> string" where
  "ind indent = concat (replicate indent ''  '')"

text \<open>
  The results of the rounds of a \<open>for\<close> loop, one after the other: the first
  exception ends the loop.
\<close>

fun collect :: "(error + 'a) list \<Rightarrow> error + 'a list" where
  "collect [] = Inr []"
| "collect (r # rs) =
     (case r of
        Inl e \<Rightarrow> Inl e
      | Inr x \<Rightarrow> (case collect rs of Inl e \<Rightarrow> Inl e | Inr xs \<Rightarrow> Inr (x # xs)))"

text \<open>
  Each round of the loop appends one or two strings to \<open>lines\<close>;
  \<open>'\n'.join(lines)\<close> is returned when no round has raised.
\<close>

fun serialize :: "'f host \<Rightarrow> 'f pyval \<Rightarrow> nat \<Rightarrow> error + string" where
  "serialize H (PDict items) indent =
     (case collect (map (\<lambda>(key, val).
         if is_container val then
           (case serialize H val (indent + 1) of
              Inl e \<Rightarrow> Inl e
            | Inr sub \<Rightarrow> Inr [ind indent @ key @ '':'', sub])
         else
           (case serialize_value H val of
              Inl e \<Rightarrow> Inl e
            | Inr s \<Rightarrow> Inr [ind indent @ key @ '': '' @ s])) items) of
        Inl e \<Rightarrow> Inl e
      | Inr lines \<Rightarrow> Inr (join_nl (concat lines)))"
| "serialize H (PList items) indent =
     (case collect (map (\<lambda>item.
         if is_container item then
           (case serialize H item (indent + 1) of
              Inl e \<Rightarrow> Inl e
            | Inr sub \<Rightarrow>
                Inr [ind indent @ ''- '',
                     replace1 (ind indent @ ''  '') (ind indent @ ''  '') sub])
         else
           (case serialize_value H item of
              Inl e \<Rightarrow> Inl e
            | Inr s \<Rightarrow> Inr [ind indent @ ''- '' @ s])) items) of
        Inl e \<Rightarrow> Inl e
      | Inr lines \<Rightarrow> Inr (join_nl (concat lines)))"
| "serialize H v indent = py_str H v"

section \<open>DataConvert\<close>

subsection \<open>\<open>DataConvert._element_to_dict\<close>\<close>

text \<open>The body of \<open>for child in element\<close>, on the dict built so far.\<close>

definition add_child ::
  "string \<Rightarrow> 'f pyval \<Rightarrow> (string \<times> 'f pyval) list \<Rightarrow> (string \<times> 'f pyval) list"
where
  "add_child child_tag child_data result =
     (case map_of result child_tag of
        None \<Rightarrow> AList.update child_tag child_data result
      | Some (PList xs) \<Rightarrow> AList.update child_tag (PList (xs @ [child_data])) result
      | Some existing \<Rightarrow> AList.update child_tag (PList [existing, child_data]) result)"

text \<open>The last two statements: a dict whose only key is \<open>#text\<close> gives its text,
  an empty dict gives \<open>None\<close>.\<close>

definition simplify :: "(string \<times> 'f pyval) list \<Rightarrow> 'f pyval" where
  "simplify result =
     (case result of
        [] \<Rightarrow> PNone
      | [(k, v)] \<Rightarrow> if k = ''#text'' then v else PDict result
      | _ \<Rightarrow> PDict result)"

fun element_to_dict :: "string element \<Rightarrow> 'f pyval" where
  "element_to_dict (Element tg attrs txt kids) =
     (let result0 =
            (if attrs \<noteq> [] then [(''@attributes'', PDict (map (\<lambda>(k, v). (k, PStr v)) attrs))]
             else []);
          result1 =
            (case txt of
               None \<Rightarrow> result0
             | Some t \<Rightarrow>
                 if strip t \<noteq> [] then AList.update ''#text'' (PStr (strip t)) result0
                 else result0);
          result2 =
            fold (\<lambda>child result. add_child (tag child) (element_to_dict child) result)
              kids result1
      in simplify result2)"

subsection \<open>\<open>DataConvert._dict_to_element\<close>\<close>

text \<open>
  Two hashable objects are the same key of a dict when they are equal: two texts that
  are the same text, \<open>None\<close> and \<open>None\<close>, two numbers of the same value, a bool
  counting as the integer 0 or 1.  \<open>d[k] = v\<close> keeps the key that is in the dict.
\<close>

fun same_key :: "'f host \<Rightarrow> 'f pyval \<Rightarrow> 'f pyval \<Rightarrow> bool" where
  "same_key H (PStr a) (PStr b) = (a = b)"
| "same_key H PNone PNone = True"
| "same_key H (PBool a) (PBool b) = (a = b)"
| "same_key H (PBool a) (PInt j) = ((if a then 1 else 0) = j)"
| "same_key H (PInt i) (PBool b) = (i = (if b then 1 else 0))"
| "same_key H (PInt i) (PInt j) = (i = j)"
| "same_key H (PFloat x) (PFloat y) = float_eq H x y"
| "same_key H (PFloat x) (PInt j) = float_eq_int H x j"
| "same_key H (PFloat x) (PBool b) = float_eq_int H x (if b then 1 else 0)"
| "same_key H (PInt i) (PFloat y) = float_eq_int H y i"
| "same_key H (PBool a) (PFloat y) = float_eq_int H y (if a then 1 else 0)"
| "same_key H a b = False"

fun update_key ::
  "'f host \<Rightarrow> 'f pyval \<Rightarrow> 'f pyval \<Rightarrow> ('f pyval \<times> 'f pyval) list
     \<Rightarrow> ('f pyval \<times> 'f pyval) list"
where
  "update_key H k v [] = [(k, v)]"
| "update_key H k v ((k', v') # a) =
     (if same_key H k' k then (k', v) # a else (k', v') # update_key H k v a)"

text \<open>
  \<open>element.attrib.update(other)\<close>.  A dict is copied key by key.  Any other object is
  iterated, and each item must itself give exactly two objects, a key and a value:
  a list of two, a text of two characters, a dict of two keys.  A list or a dict as the
  key is not hashable (TypeError); an item that cannot be iterated is a TypeError, one
  that does not give two objects a ValueError.
\<close>

fun pair_of :: "'f pyval \<Rightarrow> error + 'f pyval \<times> 'f pyval" where
  "pair_of (PList [PList k, v]) = Inl TypeError"
| "pair_of (PList [PDict k, v]) = Inl TypeError"
| "pair_of (PList [k, v]) = Inr (k, v)"
| "pair_of (PList xs) = Inl ValueError"
| "pair_of (PStr [a, b]) = Inr (PStr [a], PStr [b])"
| "pair_of (PStr s) = Inl ValueError"
| "pair_of (PDict [(k1, v1), (k2, v2)]) = Inr (PStr k1, PStr k2)"
| "pair_of (PDict kvs) = Inl ValueError"
| "pair_of v = Inl TypeError"

fun update_pairs ::
  "'f host \<Rightarrow> ('f pyval \<times> 'f pyval) list \<Rightarrow> 'f pyval list
     \<Rightarrow> error + ('f pyval \<times> 'f pyval) list"
where
  "update_pairs H a [] = Inr a"
| "update_pairs H a (item # items) =
     (case pair_of item of
        Inl e \<Rightarrow> Inl e
      | Inr (k, v) \<Rightarrow> update_pairs H (update_key H k v a) items)"

fun attrib_update ::
  "'f host \<Rightarrow> ('f pyval \<times> 'f pyval) list \<Rightarrow> 'f pyval
     \<Rightarrow> error + ('f pyval \<times> 'f pyval) list"
where
  "attrib_update H a (PDict other) =
     Inr (fold (\<lambda>(k, v) a. update_key H (PStr k) v a) other a)"
| "attrib_update H a (PList items) = update_pairs H a items"
| "attrib_update H a (PStr s) = (if s = [] then Inr a else Inl ValueError)"
| "attrib_update H a v = Inl TypeError"

definition set_text :: "string \<Rightarrow> 'a element \<Rightarrow> 'a element" where
  "set_text s el = Element (tag el) (attrib el) (Some s) (children el)"

definition append_child :: "'a element \<Rightarrow> 'a element \<Rightarrow> 'a element" where
  "append_child c el = Element (tag el) (attrib el) (text_of el) (children el @ [c])"

text \<open>
  The two \<open>for\<close> loops thread the element under construction; an exception ends
  them (\<open>Inl\<close>).  \<open>str(value)\<close> raises for an integer beyond the digit limit.
\<close>

fun dict_to_element :: "'f host \<Rightarrow> 'f pyval \<Rightarrow> string \<Rightarrow> error + 'f pyval element" where
  "dict_to_element H (PDict data) tg =
     (case (case map_of data ''@attributes'' of
              None \<Rightarrow> Inr []
            | Some other \<Rightarrow> attrib_update H [] other) of
        Inl e \<Rightarrow> Inl e
      | Inr att \<Rightarrow>
          fold (\<lambda>(key, val) acc.
             case acc of
               Inl e \<Rightarrow> Inl e
             | Inr el \<Rightarrow>
                 if key = ''@attributes'' then Inr el
                 else if key = ''#text'' then
                   (case py_str H val of
                      Inl e \<Rightarrow> Inl e
                    | Inr s \<Rightarrow> Inr (set_text s el))
                 else
                   (case val of
                      PList items \<Rightarrow>
                        fold (\<lambda>item acc.
                           case acc of
                             Inl e \<Rightarrow> Inl e
                           | Inr el \<Rightarrow>
                               (case dict_to_element H item key of
                                  Inl e \<Rightarrow> Inl e
                                | Inr c \<Rightarrow> Inr (append_child c el)))
                          items (Inr el)
                    | _ \<Rightarrow>
                        (case dict_to_element H val key of
                           Inl e \<Rightarrow> Inl e
                         | Inr c \<Rightarrow> Inr (append_child c el))))
            data (Inr (Element tg att None [])))"
| "dict_to_element H (PList items) tg =
     fold (\<lambda>item acc.
        case acc of
          Inl e \<Rightarrow> Inl e
        | Inr el \<Rightarrow>
            (case dict_to_element H item ''item'' of
               Inl e \<Rightarrow> Inl e
             | Inr c \<Rightarrow> Inr (append_child c el)))
       items (Inr (Element tg [] None []))"
| "dict_to_element H PNone tg = Inr (Element tg [] (Some []) [])"
| "dict_to_element H v tg =
     (case py_str H v of
        Inl e \<Rightarrow> Inl e
      | Inr s \<Rightarrow> Inr (Element tg [] (Some s) []))"

subsection \<open>The delegated codecs and the conversions built on them\<close>

text \<open>
  \<open>json\<close>, \<open>csv\<close>, \<open>xml.etree.ElementTree\<close> and \<open>xml.dom.minidom\<close> are
  libraries of the host.  Each call the program makes is a field of \<open>codecs\<close>; a
  library's exception is \<open>Inl\<close> of its message.
\<close>

record 'f codecs =
  json_loads :: "string \<Rightarrow> string + 'f pyval"
  json_dumps :: "bool \<Rightarrow> 'f pyval \<Rightarrow> string + string"
    \<comment> \<open>\<open>json.dumps(data, ensure_ascii=False)\<close>, with \<open>indent=2\<close> when the flag is set\<close>
  csv_DictReader :: "string list \<Rightarrow> string + 'f pyval"
    \<comment> \<open>\<open>list(csv.DictReader(lines))\<close>\<close>
  csv_DictWriter :: "string list \<Rightarrow> 'f pyval \<Rightarrow> string + string"
    \<comment> \<open>\<open>writeheader()\<close> and \<open>writerows(data)\<close> of \<open>DictWriter(fieldnames)\<close>\<close>
  ET_fromstring :: "string \<Rightarrow> string + string element"
  ET_tostring :: "'f pyval element \<Rightarrow> string + string"
  toprettyxml :: "string \<Rightarrow> string + string"
    \<comment> \<open>\<open>minidom.parseString(xml_str).toprettyxml(indent='  ')\<close>\<close>

definition delegated :: "string + 'a \<Rightarrow> error + 'a" where
  "delegated r = (case r of Inl msg \<Rightarrow> Inl (Delegated msg) | Inr x \<Rightarrow> Inr x)"

definition json_to_dict :: "'f codecs \<Rightarrow> string \<Rightarrow> error + 'f pyval" where
  "json_to_dict C json_str = delegated (json_loads C json_str)"

definition dict_to_json :: "'f codecs \<Rightarrow> 'f pyval \<Rightarrow> bool \<Rightarrow> error + string" where
  "dict_to_json C data pretty = delegated (json_dumps C pretty data)"

definition csv_to_dict :: "'f codecs \<Rightarrow> string \<Rightarrow> error + 'f pyval" where
  "csv_to_dict C csv_str = delegated (csv_DictReader C (split_nl (strip csv_str)))"

text \<open>
  \<open>dict_to_csv\<close>: after \<open>if not data: return ""\<close> comes \<open>data[0].keys()\<close>, which
  needs a list whose first item is a dict.
\<close>

definition dict_to_csv :: "'f host \<Rightarrow> 'f codecs \<Rightarrow> 'f pyval \<Rightarrow> error + string" where
  "dict_to_csv H C data =
     (if \<not> truthy H data then Inr []
      else
        (case data of
           PList rows \<Rightarrow>
             (case rows of
                PDict first # _ \<Rightarrow> delegated (csv_DictWriter C (map fst first) data)
              | _ \<Rightarrow> Inl AttributeError)
         | PStr s \<Rightarrow> Inl AttributeError
         | PDict kvs \<Rightarrow> Inl KeyError
         | _ \<Rightarrow> Inl TypeError))"

definition xml_to_dict :: "'f codecs \<Rightarrow> string \<Rightarrow> error + 'f pyval" where
  "xml_to_dict C xml_str =
     (case ET_fromstring C xml_str of
        Inl msg \<Rightarrow> Inl (Delegated msg)
      | Inr root \<Rightarrow> Inr (element_to_dict root))"

definition dict_to_xml ::
  "'f host \<Rightarrow> 'f codecs \<Rightarrow> 'f pyval \<Rightarrow> string \<Rightarrow> bool \<Rightarrow> error + string"
where
  "dict_to_xml H C data root_name pretty =
     (case dict_to_element H data root_name of
        Inl e \<Rightarrow> Inl e
      | Inr root \<Rightarrow>
          (case ET_tostring C root of
             Inl msg \<Rightarrow> Inl (Delegated msg)
           | Inr xml_str \<Rightarrow> if pretty then delegated (toprettyxml C xml_str) else Inr xml_str))"

definition yaml_to_dict :: "'f host \<Rightarrow> string \<Rightarrow> error + 'f pyval" where
  "yaml_to_dict H yaml_str = parse H yaml_str"

definition dict_to_yaml :: "'f host \<Rightarrow> 'f pyval \<Rightarrow> error + string" where
  "dict_to_yaml H data = serialize H data 0"

subsection \<open>\<open>DataConvert.convert\<close>\<close>

text \<open>The first \<open>if\<close> chain of \<open>convert\<close> (\<open># Parse input\<close>).\<close>

definition convert_parse_input ::
  "'f host \<Rightarrow> 'f codecs \<Rightarrow> string \<Rightarrow> string \<Rightarrow> string \<Rightarrow> error + 'f pyval"
where
  "convert_parse_input H C input_format data_str root_name =
     (if input_format = ''json'' then json_to_dict C data_str
      else if input_format = ''csv'' then csv_to_dict C data_str
      else if input_format = ''xml'' then
        (case xml_to_dict C data_str of
           Inl e \<Rightarrow> Inl e
         | Inr data \<Rightarrow> Inr (PDict [(root_name, data)]))
      else if input_format = ''yaml'' then yaml_to_dict H data_str
      else Inl (UnsupportedFormat (''Unsupported input format: '' @ input_format)))"

text \<open>The second \<open>if\<close> chain (\<open># Convert to output\<close>).\<close>

definition convert_to_output ::
  "'f host \<Rightarrow> 'f codecs \<Rightarrow> string \<Rightarrow> 'f pyval \<Rightarrow> string \<Rightarrow> error + string"
where
  "convert_to_output H C output_format data root_name =
     (if output_format = ''json'' then dict_to_json C data True
      else if output_format = ''csv'' then
        dict_to_csv H C (case data of PDict kvs \<Rightarrow> PList [data] | _ \<Rightarrow> data)
      else if output_format = ''xml'' then
        (case data of
           PDict [(root_key, inner)] \<Rightarrow> dict_to_xml H C inner root_key True
         | _ \<Rightarrow> dict_to_xml H C data root_name True)
      else if output_format = ''yaml'' then dict_to_yaml H data
      else Inl (UnsupportedFormat (''Unsupported output format: '' @ output_format)))"

definition convert ::
  "'f host \<Rightarrow> 'f codecs \<Rightarrow> string \<Rightarrow> string \<Rightarrow> string \<Rightarrow> string \<Rightarrow> error + string"
where
  "convert H C input_format output_format data_str root_name =
     (case convert_parse_input H C input_format data_str root_name of
        Inl e \<Rightarrow> Inl e
      | Inr data \<Rightarrow> convert_to_output H C output_format data root_name)"

subsection \<open>A host and codecs to run the examples on\<close>

text \<open>
  \<open>example_host\<close> keeps a float as the literal it was read from, reads the
  literals \<open>[-]digits[.digits]\<close> and compares them by their value; its digit limit
  is 4300.
\<close>

definition decimal_literal :: "string \<Rightarrow> bool" where
  "decimal_literal s \<longleftrightarrow>
     (let body = (if startswith s ''-'' then drop 1 s else s);
          whole = takeWhile is_decimal body;
          rest = dropWhile is_decimal body
      in whole \<noteq> [] \<and>
         (rest = [] \<or>
          (startswith rest ''.'' \<and> drop 1 rest \<noteq> [] \<and> list_all is_decimal (drop 1 rest))))"

text \<open>The value of a literal: an integer and the number of digits after the point.\<close>

definition literal_value :: "string \<Rightarrow> int \<times> nat" where
  "literal_value s =
     (let body = (if startswith s ''-'' then drop 1 s else s);
          whole = takeWhile is_decimal body;
          frac = drop 1 (dropWhile is_decimal body);
          n = int (fold (\<lambda>c n. 10 * n + digit_val c) (whole @ frac) 0)
      in (if startswith s ''-'' then - n else n, length frac))"

definition example_host :: "string host" where
  "example_host =
     \<lparr>float_of = (\<lambda>s. if decimal_literal s then Some s else None),
      str_float = (\<lambda>x. x),
      float_truthy = (\<lambda>x. list_ex (\<lambda>c. is_decimal c \<and> c \<noteq> CHR ''0'') x),
      float_eq = (\<lambda>x y. fst (literal_value x) * 10 ^ snd (literal_value y)
                        = fst (literal_value y) * 10 ^ snd (literal_value x)),
      float_eq_int = (\<lambda>x i. fst (literal_value x) = i * 10 ^ snd (literal_value x)),
      str_container = (\<lambda>v. Some ''[...]''),
      int_max_str_digits = 4300\<rparr>"

text \<open>
  \<open>json.dumps(data, ensure_ascii=False)\<close>, with \<open>indent=2\<close> when \<open>pretty\<close> is
  set, for the values of \<open>example_host\<close>: a text in double quotes with the quote, the
  backslash and the control characters escaped, a container on one line or, with
  \<open>indent\<close>, one item on each line.
\<close>

definition hex_digit :: "nat \<Rightarrow> char" where
  "hex_digit d = ''0123456789abcdef'' ! d"

definition json_char :: "char \<Rightarrow> string" where
  "json_char c =
     (if c = CHR 0x22 then [CHR 0x5C, CHR 0x22]
      else if c = CHR 0x5C then [CHR 0x5C, CHR 0x5C]
      else if c = CHR 0x0A then [CHR 0x5C, CHR ''n'']
      else if c = CHR 0x0D then [CHR 0x5C, CHR ''r'']
      else if c = CHR 0x09 then [CHR 0x5C, CHR ''t'']
      else if c = CHR 0x08 then [CHR 0x5C, CHR ''b'']
      else if c = CHR 0x0C then [CHR 0x5C, CHR ''f'']
      else if (of_char c :: nat) < 32 then
        [CHR 0x5C, CHR ''u'', CHR ''0'', CHR ''0'',
         hex_digit ((of_char c :: nat) div 16), hex_digit ((of_char c :: nat) mod 16)]
      else [c])"

definition json_string :: "string \<Rightarrow> string" where
  "json_string s = [CHR 0x22] @ concat (map json_char s) @ [CHR 0x22]"

text \<open>\<open>sep.join(xs)\<close>.\<close>

fun join_str :: "string \<Rightarrow> string list \<Rightarrow> string" where
  "join_str sep [] = []"
| "join_str sep [x] = x"
| "join_str sep (x # y # ys) = x @ sep @ join_str sep (y # ys)"

fun json_text :: "bool \<Rightarrow> nat \<Rightarrow> string pyval \<Rightarrow> string" where
  "json_text pretty level PNone = ''null''"
| "json_text pretty level (PBool b) = (if b then ''true'' else ''false'')"
| "json_text pretty level (PInt i) =
     (if i < 0 then CHR ''-'' # str_nat (nat (- i)) else str_nat (nat i))"
| "json_text pretty level (PFloat x) = x"
| "json_text pretty level (PStr s) = json_string s"
| "json_text pretty level (PList xs) =
     (if xs = [] then ''[]''
      else if pretty then
        ''['' @ CHR 0x0A # ind (level + 1)
          @ join_str ('','' @ CHR 0x0A # ind (level + 1)) (map (json_text pretty (level + 1)) xs)
          @ CHR 0x0A # ind level @ '']''
      else ''['' @ join_str '', '' (map (json_text pretty level) xs) @ '']'')"
| "json_text pretty level (PDict kvs) =
     (if kvs = [] then ''{}''
      else if pretty then
        ''{'' @ CHR 0x0A # ind (level + 1)
          @ join_str ('','' @ CHR 0x0A # ind (level + 1))
              (map (\<lambda>(k, v). json_string k @ '': '' @ json_text pretty (level + 1) v) kvs)
          @ CHR 0x0A # ind level @ ''}''
      else
        ''{'' @ join_str '', ''
                 (map (\<lambda>(k, v). json_string k @ '': '' @ json_text pretty level v) kvs)
          @ ''}'')"

text \<open>
  \<open>example_codecs\<close> writes JSON as above, and refuses an integer beyond the digit
  limit as \<open>str\<close> does.  For the other calls it answers for the documents the
  examples use, as the libraries do, and with an error for any other document.
\<close>

definition example_codecs :: "string codecs" where
  "example_codecs =
     \<lparr>json_loads = (\<lambda>s. if s = ''{}'' then Inr (PDict []) else Inl ''JSONDecodeError''),
      json_dumps =
        (\<lambda>pretty v. if ints_fit example_host v then Inr (json_text pretty 0 v)
                     else Inl ''ValueError''),
      csv_DictReader = (\<lambda>lines. Inl ''outside the examples''),
      csv_DictWriter = (\<lambda>fieldnames rows. Inl ''outside the examples''),
      ET_fromstring =
        (\<lambda>s. if s = ''<data><name>Test</name></data>''
             then Inr (Element ''data'' [] None [Element ''name'' [] (Some ''Test'') []])
             else Inl ''ParseError''),
      ET_tostring = (\<lambda>el. Inl ''outside the examples''),
      toprettyxml = (\<lambda>s. Inl ''outside the examples'')\<rparr>"

section \<open>Notions the properties are stated with\<close>

subsection \<open>One round of the parser's loop\<close>

text \<open>
  What one round of the \<open>while\<close> loop of \<open>_parse_lines\<close> does with \<open>lines[i]\<close>,
  read off the loop's body: go to the next line, leave the loop, raise, append a list
  item, store a key, or parse the more indented lines that follow as the key's value.
\<close>

datatype 'f step =
    Skip
  | Break
  | Fail error
  | AddItem "'f pyval"
  | SetKey string "'f pyval"
  | Nested string nat

definition step_of :: "'f host \<Rightarrow> nat \<Rightarrow> string \<Rightarrow> string list \<Rightarrow> 'f step" where
  "step_of H indent line rest =
     (let stripped = strip line in
      if stripped = [] \<or> startswith stripped ''#'' then Skip
      else
        let line_indent = indent_of line in
        if line_indent < indent then Break
        else if line_indent > indent then Skip
        else if startswith stripped ''- '' then
          (let val = strip (drop 2 stripped) in
           if CHR '':'' \<in> set val then
             (case parse_value H (strip (after_colon val)) of
                Inl e \<Rightarrow> Fail e
              | Inr v \<Rightarrow> AddItem (PDict [(strip (before_colon val), v)]))
           else
             (case parse_value H val of
                Inl e \<Rightarrow> Fail e
              | Inr v \<Rightarrow> AddItem v))
        else if CHR '':'' \<in> set stripped then
          (let key = strip (before_colon stripped);
               val = strip (after_colon stripped) in
           if val \<noteq> [] then
             (case parse_value H val of
                Inl e \<Rightarrow> Fail e
              | Inr v \<Rightarrow> SetKey key v)
           else
             (case rest of
                [] \<Rightarrow> SetKey key PNone
              | next_line # _ \<Rightarrow>
                  if indent_of next_line > line_indent then Nested key (indent_of next_line)
                  else Skip))
        else Skip)"

subsection \<open>The loops of \<open>_dict_to_element\<close>\<close>

text \<open>A \<open>for\<close> loop over \<open>xs\<close> that threads a state and stops at the first exception.\<close>

fun for_each :: "('a \<Rightarrow> 's \<Rightarrow> error + 's) \<Rightarrow> 'a list \<Rightarrow> 's \<Rightarrow> error + 's" where
  "for_each f [] s = Inr s"
| "for_each f (x # xs) s = (case f x s of Inl e \<Rightarrow> Inl e | Inr s' \<Rightarrow> for_each f xs s')"

text \<open>\<open>element.append(DataConvert._dict_to_element(item, key))\<close>.\<close>

definition add_item ::
  "'f host \<Rightarrow> string \<Rightarrow> 'f pyval \<Rightarrow> 'f pyval element \<Rightarrow> error + 'f pyval element"
where
  "add_item H key item el =
     (case dict_to_element H item key of Inl e \<Rightarrow> Inl e | Inr c \<Rightarrow> Inr (append_child c el))"

text \<open>The body of \<open>for key, value in data.items()\<close>.\<close>

definition add_entry ::
  "'f host \<Rightarrow> string \<times> 'f pyval \<Rightarrow> 'f pyval element \<Rightarrow> error + 'f pyval element"
where
  "add_entry H entry el =
     (case entry of (key, val) \<Rightarrow>
        if key = ''@attributes'' then Inr el
        else if key = ''#text'' then
          (case py_str H val of Inl e \<Rightarrow> Inl e | Inr s \<Rightarrow> Inr (set_text s el))
        else (case val of
                PList items \<Rightarrow> for_each (add_item H key) items el
              | _ \<Rightarrow> add_item H key val el))"

subsection \<open>Format tags\<close>

definition formats :: "string set" where
  "formats = {''json'', ''csv'', ''xml'', ''yaml''}"

subsection \<open>Inputs on which nothing raises\<close>







subsection \<open>What an element tree comes back as\<close>

text \<open>
  An element tree as the XML parser builds it, for this purpose: the attribute names of
  a node are distinct (\<open>attrib\<close> is a dict), and no element below the root is tagged
  with one of the two reserved keys.
\<close>

fun plain :: "string element \<Rightarrow> bool" where
  "plain (Element tg attrs txt kids) =
     (distinct (map fst attrs) \<and>
      list_all (\<lambda>c. tag c \<noteq> ''@attributes'' \<and> tag c \<noteq> ''#text'' \<and> plain c) kids)"

text \<open>
  The children in the order of the first occurrence of their tags, the children of one
  tag next to each other and in their own order.
\<close>

fun group_by_tag :: "'a element list \<Rightarrow> 'a element list" where
  "group_by_tag [] = []"
| "group_by_tag (c # cs) =
     c # filter (\<lambda>d. tag d = tag c) cs @ group_by_tag (filter (\<lambda>d. tag d \<noteq> tag c) cs)"

text \<open>The text of a node after \<open>strip\<close>; \<open>None\<close> when nothing is left of it.\<close>

definition trimmed :: "string option \<Rightarrow> string option" where
  "trimmed txt =
     (case txt of
        None \<Rightarrow> None
      | Some t \<Rightarrow> if strip t = [] then None else Some (strip t))"

text \<open>
  The tree with the root tagged \<open>g\<close>, every text trimmed, every attribute name and
  value as a \<open>PStr\<close>, the children of every node grouped by tag, and the empty text on a node
  that has no attribute, no text and no child.
\<close>

fun rebuilt :: "string \<Rightarrow> string element \<Rightarrow> 'f pyval element" where
  "rebuilt g (Element tg attrs txt kids) =
     (if attrs = [] \<and> trimmed txt = None \<and> kids = [] then Element g [] (Some []) []
      else
        Element g (map (\<lambda>(k, v). (PStr k, PStr v)) attrs) (trimmed txt)
          (group_by_tag (map (\<lambda>c. rebuilt (tag c) c) kids)))"

text \<open>
  What the loop over the children leaves in the dict, said without the loop: one entry
  for each tag, in the order of the first occurrence; the entry of a tag that occurs
  once is the child's value, the entry of a tag that occurs again is the list of the
  values.  \<open>promote\<close> is the step from the one to the other.
\<close>

fun promote :: "'f pyval \<Rightarrow> 'f pyval \<Rightarrow> 'f pyval" where
  "promote (PList xs) d = PList (xs @ [d])"
| "promote v d = PList [v, d]"

fun is_list :: "'f pyval \<Rightarrow> bool" where
  "is_list (PList xs) = True"
| "is_list v = False"

fun entries_of :: "('a element \<Rightarrow> 'f pyval) \<Rightarrow> 'a element list \<Rightarrow> (string \<times> 'f pyval) list" where
  "entries_of D [] = []"
| "entries_of D (c # cs) =
     (tag c,
      if filter (\<lambda>d. tag d = tag c) cs = [] then D c
      else PList (map D (c # filter (\<lambda>d. tag d = tag c) cs)))
     # entries_of D (filter (\<lambda>d. tag d \<noteq> tag c) cs)"

text \<open>The dict before \<open>simplify\<close>: the attributes, the text, the children's entries.\<close>

definition attr_entry :: "(string \<times> string) list \<Rightarrow> (string \<times> 'f pyval) list" where
  "attr_entry attrs =
     (if attrs \<noteq> [] then [(''@attributes'', PDict (map (\<lambda>(k, v). (k, PStr v)) attrs))] else [])"

definition text_entry :: "string option \<Rightarrow> (string \<times> 'f pyval) list" where
  "text_entry txt = (case trimmed txt of None \<Rightarrow> [] | Some s \<Rightarrow> [(''#text'', PStr s)])"

text \<open>Same-tag children are next to each other, at every node.\<close>

fun grouped :: "'a element \<Rightarrow> bool" where
  "grouped (Element tg attrs txt kids) = (group_by_tag kids = kids \<and> list_all grouped kids)"

text \<open>Tags and attributes only: every text removed.\<close>

fun skeleton :: "'a element \<Rightarrow> 'a element" where
  "skeleton (Element tg attrs txt kids) = Element tg attrs None (map skeleton kids)"

subsection \<open>Values that survive the block format\<close>



text \<open>A text that \<open>strip\<close> leaves as it is, and is not empty.\<close>

definition tight :: "string \<Rightarrow> bool" where
  "tight s \<longleftrightarrow> s \<noteq> [] \<and> \<not> is_space (hd s) \<and> \<not> is_space (last s)"









section \<open>Properties\<close>

subsection \<open>The conversion facade\<close>

text \<open>
  C10.  \<open>dict_to_csv([])\<close> is the empty string: the guard \<open>if not data\<close> returns
  before any header is written, whatever the csv writer would do.
\<close>

theorem dict_to_csv_empty: "dict_to_csv H C (PList []) = Inr []"
  by (simp add: dict_to_csv_def)

theorem dict_to_csv_empty_witness: "dict_to_csv example_host example_codecs (PList []) = Inr []"
  by (rule dict_to_csv_empty)

text \<open>
  C3, as the code has it.  With \<open>xml\<close> as the input format, the value handed on is a
  dict of one entry whose key is the argument \<open>root_name\<close> (\<open>root\<close> unless the
  caller gives another) and whose value is \<open>_element_to_dict\<close> of the parsed root;
  the root's own tag is not looked at.
\<close>

theorem convert_xml_wraps_in_root_name:
  "ET_fromstring C data_str = Inr root \<Longrightarrow>
     convert_parse_input H C ''xml'' data_str root_name
       = Inr (PDict [(root_name, element_to_dict root)]) \<and>
     convert H C ''xml'' output_format data_str root_name
       = convert_to_output H C output_format (PDict [(root_name, element_to_dict root)]) root_name"
  by (simp add: convert_def convert_parse_input_def xml_to_dict_def)

theorem convert_xml_wraps_in_root_name_witness:
  "convert_parse_input example_host example_codecs ''xml'' ''<data><name>Test</name></data>''
     ''config''
     = Inr (PDict [(''config'', PDict [(''name'', PStr ''Test'')])])"
  using convert_xml_wraps_in_root_name
    [of example_codecs "''<data><name>Test</name></data>''"
      "Element ''data'' [] None [Element ''name'' [] (Some ''Test'') []]"
      example_host "''config''" "''json''"]
  by (simp add: example_codecs_def simplify_def add_child_def strip_def lstrip_def rstrip_def
      is_space_def)

text \<open>
  C3, as the claim states it, fails: the document's root tag is \<open>data\<close>, and the key
  of the wrapping dict is \<open>root\<close>.
\<close>

theorem convert_xml_key_is_not_the_root_tag:
  "ET_fromstring example_codecs ''<data><name>Test</name></data>''
     = Inr (Element ''data'' [] None [Element ''name'' [] (Some ''Test'') []]) \<and>
   convert_parse_input example_host example_codecs ''xml'' ''<data><name>Test</name></data>''
     ''root''
     \<noteq> Inr (PDict [(tag (Element ''data'' [] None [Element ''name'' [] (Some ''Test'') []]),
          element_to_dict (Element ''data'' [] None [Element ''name'' [] (Some ''Test'') []]))])"
  by (simp add: example_codecs_def convert_parse_input_def xml_to_dict_def)

text \<open>
  C4.  When the XML parser reads \<open><data><name>Test</name></data>\<close> as the element
  \<open>data\<close> with the one child \<open>name\<close> of text \<open>Test\<close>, the value that
  \<open>convert\<close> from \<open>xml\<close> builds with the root name \<open>root\<close> is the dict with
  the single key \<open>root\<close>, whose value is the dict of \<open>name\<close> to \<open>Test\<close>; and
  when \<open>json.dumps\<close> returns the text \<open>s\<close> for that dict, \<open>convert\<close> to
  \<open>json\<close> returns \<open>s\<close>.
\<close>

theorem convert_xml_json_example:
  "ET_fromstring C ''<data><name>Test</name></data>''
     = Inr (Element ''data'' [] None [Element ''name'' [] (Some ''Test'') []]) \<Longrightarrow>
   json_dumps C True (PDict [(''root'', PDict [(''name'', PStr ''Test'')])]) = Inr s \<Longrightarrow>
   convert_parse_input H C ''xml'' ''<data><name>Test</name></data>'' ''root''
     = Inr (PDict [(''root'', PDict [(''name'', PStr ''Test'')])]) \<and>
   convert H C ''xml'' ''json'' ''<data><name>Test</name></data>'' ''root'' = Inr s"
  by (simp add: convert_def convert_parse_input_def convert_to_output_def xml_to_dict_def
      dict_to_json_def delegated_def simplify_def add_child_def strip_def lstrip_def rstrip_def
      is_space_def)

theorem convert_xml_json_example_witness:
  "convert example_host example_codecs ''xml'' ''json'' ''<data><name>Test</name></data>''
     ''root''
     = Inr (''{'' @ [CHR 0x0A] @
            ''  '' @ [CHR 0x22] @ ''root'' @ [CHR 0x22] @ '': {'' @ [CHR 0x0A] @
            ''    '' @ [CHR 0x22] @ ''name'' @ [CHR 0x22] @ '': '' @
                       [CHR 0x22] @ ''Test'' @ [CHR 0x22] @ [CHR 0x0A] @
            ''  }'' @ [CHR 0x0A] @
            ''}'')"
proof -
  have "ET_fromstring example_codecs ''<data><name>Test</name></data>''
      = Inr (Element ''data'' [] None [Element ''name'' [] (Some ''Test'') []])"
    by (simp add: example_codecs_def)
  moreover have "json_dumps example_codecs True
        (PDict [(''root'', PDict [(''name'', PStr ''Test'')])])
      = Inr (''{'' @ [CHR 0x0A] @
            ''  '' @ [CHR 0x22] @ ''root'' @ [CHR 0x22] @ '': {'' @ [CHR 0x0A] @
            ''    '' @ [CHR 0x22] @ ''name'' @ [CHR 0x22] @ '': '' @
                       [CHR 0x22] @ ''Test'' @ [CHR 0x22] @ [CHR 0x0A] @
            ''  }'' @ [CHR 0x0A] @
            ''}'')"
    by code_simp
  ultimately show ?thesis
    using convert_xml_json_example [of example_codecs _ example_host] by blast
qed

subsection \<open>The loops, one round at a time\<close>

lemma parse_loop_Cons:
  "parse_loop H indent (line # rest) result list_items =
     (case step_of H indent line rest of
        Skip \<Rightarrow> parse_loop H indent rest result list_items
      | Break \<Rightarrow> Inr (finish result list_items)
      | Fail e \<Rightarrow> Inl e
      | AddItem v \<Rightarrow> parse_loop H indent rest result (list_items @ [v])
      | SetKey key v \<Rightarrow> parse_loop H indent rest (AList.update key v result) list_items
      | Nested key next_indent \<Rightarrow>
          (case parse_loop H next_indent (takeWhile (in_block (indent_of line)) rest) [] [] of
             Inl e \<Rightarrow> Inl e
           | Inr v \<Rightarrow>
               parse_loop H indent (dropWhile (in_block (indent_of line)) rest)
                 (AList.update key v result) list_items))"
  by (simp add: step_of_def Let_def split: sum.splits list.splits)

declare parse_loop.simps(2) [simp del]

lemma fold_err_Inl:
  "fold (\<lambda>x acc. case acc of Inl e \<Rightarrow> Inl e | Inr s \<Rightarrow> f x s) xs (Inl e) = Inl e"
  by (induction xs) auto

lemma fold_err_for_each:
  "fold (\<lambda>x acc. case acc of Inl e \<Rightarrow> Inl e | Inr s \<Rightarrow> f x s) xs (Inr s) = for_each f xs s"
proof (induction xs arbitrary: s)
  case Nil
  show ?case by simp
next
  case (Cons x xs)
  show ?case
  proof (cases "f x s")
    case (Inl e)
    then show ?thesis by (simp add: fold_err_Inl)
  next
    case (Inr s')
    then show ?thesis using Cons.IH [of s'] by simp
  qed
qed

lemma add_item_fold:
  "fold (\<lambda>item acc. case acc of Inl e \<Rightarrow> Inl e
         | Inr el \<Rightarrow> (case dict_to_element H item key of Inl e \<Rightarrow> Inl e
                      | Inr c \<Rightarrow> Inr (append_child c el))) items (Inr el)
     = for_each (add_item H key) items el"
proof -
  have "(\<lambda>item acc. case acc of Inl e \<Rightarrow> Inl e
         | Inr el \<Rightarrow> (case dict_to_element H item key of Inl e \<Rightarrow> Inl e
                      | Inr c \<Rightarrow> Inr (append_child c el)))
       = (\<lambda>item acc. case acc of Inl e \<Rightarrow> Inl e | Inr el \<Rightarrow> add_item H key item el)"
    by (intro ext) (simp add: add_item_def split: sum.splits)
  then show ?thesis
    by (simp add: fold_err_for_each)
qed

lemma dict_to_element_PList:
  "dict_to_element H (PList items) tg
     = for_each (add_item H ''item'') items (Element tg [] None [])"
  by (simp add: add_item_fold)

lemma dict_to_element_PDict:
  "dict_to_element H (PDict data) tg =
     (case (case map_of data ''@attributes'' of
              None \<Rightarrow> Inr []
            | Some other \<Rightarrow> attrib_update H [] other) of
        Inl e \<Rightarrow> Inl e
      | Inr att \<Rightarrow> for_each (add_entry H) data (Element tg att None []))"
proof -
  have outer: "(\<lambda>(key, val) acc.
             case acc of
               Inl e \<Rightarrow> Inl e
             | Inr el \<Rightarrow>
                 if key = ''@attributes'' then Inr el
                 else if key = ''#text'' then
                   (case py_str H val of
                      Inl e \<Rightarrow> Inl e
                    | Inr s \<Rightarrow> Inr (set_text s el))
                 else
                   (case val of
                      PList items \<Rightarrow>
                        fold (\<lambda>item acc.
                           case acc of
                             Inl e \<Rightarrow> Inl e
                           | Inr el \<Rightarrow>
                               (case dict_to_element H item key of
                                  Inl e \<Rightarrow> Inl e
                                | Inr c \<Rightarrow> Inr (append_child c el)))
                          items (Inr el)
                    | _ \<Rightarrow>
                        (case dict_to_element H val key of
                           Inl e \<Rightarrow> Inl e
                         | Inr c \<Rightarrow> Inr (append_child c el))))
     = (\<lambda>entry acc. case acc of Inl e \<Rightarrow> Inl e | Inr el \<Rightarrow> add_entry H entry el)"
    by (intro ext)
       (auto simp: add_entry_def add_item_def add_item_fold
          split: sum.splits pyval.splits prod.splits)
  show ?thesis
    by (subst dict_to_element.simps, subst outer, simp only: fold_err_for_each)
qed

declare dict_to_element.simps(1,2) [simp del]

lemma for_each_append:
  "for_each f (xs @ ys) s =
     (case for_each f xs s of Inl e \<Rightarrow> Inl e | Inr s' \<Rightarrow> for_each f ys s')"
  by (induction xs arbitrary: s) (auto split: sum.splits)

lemma for_each_error:
  assumes "for_each f xs s = Inl e"
    and "\<And>x s' e'. x \<in> set xs \<Longrightarrow> f x s' = Inl e' \<Longrightarrow> P e'"
  shows "P e"
  using assms
proof (induction xs arbitrary: s)
  case Nil
  then show ?case by simp
next
  case (Cons x xs)
  show ?case
  proof (cases "f x s")
    case (Inl e')
    with Cons.prems(1) have "e' = e" by simp
    with Inl Cons.prems(2) [of x s e'] show ?thesis by simp
  next
    case (Inr s')
    with Cons.prems(1) have rest: "for_each f xs s' = Inl e" by simp
    show ?thesis
    proof (rule Cons.IH [OF rest])
      fix y s'' e'
      assume "y \<in> set xs" and "f y s'' = Inl e'"
      then show "P e'" using Cons.prems(2) [of y s'' e'] by simp
    qed
  qed
qed


subsection \<open>Which exceptions there are\<close>

lemma parse_value_error: "parse_value H v = Inl e \<Longrightarrow> e = ValueError"
  by (auto simp: parse_value_def int_of_digits_def split: if_splits option.splits sum.splits)

lemma py_str_error: "py_str H v = Inl e \<Longrightarrow> e = ValueError"
  by (cases v) (auto simp: py_str_def str_int_def Let_def split: if_splits option.splits)

lemma step_of_Fail: "step_of H indent line rest = Fail e \<Longrightarrow> e = ValueError"
  by (auto simp: step_of_def Let_def dest: parse_value_error
      split: if_splits sum.splits list.splits)

lemma parse_loop_error_all:
  "\<forall>H indent result items e.
     parse_loop H indent lines (result :: (string \<times> 'a pyval) list) items = Inl e
       \<longrightarrow> e = ValueError"
proof (induction lines rule: length_induct)
  case (1 lines)
  show ?case
  proof (cases lines)
    case Nil
    then show ?thesis by simp
  next
    case (Cons line rest)
    have tk: "length (takeWhile (in_block (indent_of line)) rest) < length lines"
      using Cons length_takeWhile_le [of "in_block (indent_of line)" rest] by simp
    have dk: "length (dropWhile (in_block (indent_of line)) rest) < length lines"
      using Cons length_dropWhile_le [of "in_block (indent_of line)" rest] by simp
    have rk: "length rest < length lines" using Cons by simp
    have ih: "\<And>ys H indent result items e. length ys < length lines \<Longrightarrow>
        parse_loop H indent ys (result :: (string \<times> 'a pyval) list) items = Inl e \<Longrightarrow>
        e = ValueError"
      using "1.IH" by blast
    show ?thesis
    proof (intro allI impI)
      fix H :: "'a host" and indent result items e
      assume a: "parse_loop H indent lines (result :: (string \<times> 'a pyval) list) items = Inl e"
      show "e = ValueError"
      proof (cases "step_of H indent line rest")
        case Skip
        then show ?thesis using a Cons by (auto simp: parse_loop_Cons dest: ih [OF rk])
      next
        case Break
        then show ?thesis using a Cons by (simp add: parse_loop_Cons)
      next
        case (Fail e')
        then show ?thesis
          using a Cons step_of_Fail [of H indent line rest e'] by (simp add: parse_loop_Cons)
      next
        case (AddItem v)
        then show ?thesis using a Cons by (auto simp: parse_loop_Cons dest: ih [OF rk])
      next
        case (SetKey k v)
        then show ?thesis using a Cons by (auto simp: parse_loop_Cons dest: ih [OF rk])
      next
        case (Nested k ni)
        then show ?thesis using a Cons
          by (auto simp add: parse_loop_Cons split: sum.splits dest: ih [OF tk] ih [OF dk])
      qed
    qed
  qed
qed

lemma collect_Inl: "collect rs = Inl e \<Longrightarrow> Inl e \<in> set rs"
  by (induction rs) (auto split: sum.splits)

lemma serialize_value_error: "serialize_value H v = Inl e \<Longrightarrow> e = ValueError"
  by (cases v) (auto simp: serialize_value_def split: if_splits dest: py_str_error)

lemma collect_map_Inl: "collect (map f xs) = Inl e \<Longrightarrow> \<exists>x \<in> set xs. f x = Inl e"
  using collect_Inl [of "map f xs" e] by auto

lemma serialize_error: "serialize H v n = Inl e \<Longrightarrow> e = ValueError"
proof (induction H v n arbitrary: e rule: serialize.induct)
  case (1 H items indent)
  let ?F = "\<lambda>(key, val).
         if is_container val then
           (case serialize H val (indent + 1) of
              Inl e \<Rightarrow> Inl e
            | Inr sub \<Rightarrow> Inr [ind indent @ key @ '':'', sub])
         else
           (case serialize_value H val of
              Inl e \<Rightarrow> Inl e
            | Inr s \<Rightarrow> Inr [ind indent @ key @ '': '' @ s])"
  have "collect (map ?F items) = Inl e"
    using "1.prems" by (simp split: sum.splits)
  then obtain x where x: "x \<in> set items" and f: "?F x = Inl e"
    using collect_map_Inl [of ?F items e] by blast
  obtain key val where kv: "x = (key, val)" by (cases x)
  show ?case
  proof (cases "is_container val")
    case True
    with f kv have s: "serialize H val (indent + 1) = Inl e" by (simp split: sum.splits)
    show ?thesis by (rule "1.IH" [OF x kv [symmetric] True s])
  next
    case False
    with f kv have "serialize_value H val = Inl e" by (simp split: sum.splits)
    then show ?thesis by (rule serialize_value_error)
  qed
next
  case (2 H items indent)
  let ?F = "\<lambda>item.
         if is_container item then
           (case serialize H item (indent + 1) of
              Inl e \<Rightarrow> Inl e
            | Inr sub \<Rightarrow>
                Inr [ind indent @ ''- '',
                     replace1 (ind indent @ ''  '') (ind indent @ ''  '') sub])
         else
           (case serialize_value H item of
              Inl e \<Rightarrow> Inl e
            | Inr s \<Rightarrow> Inr [ind indent @ ''- '' @ s])"
  have "collect (map ?F items) = Inl e"
    using "2.prems" by (simp split: sum.splits)
  then obtain x where x: "x \<in> set items" and f: "?F x = Inl e"
    using collect_map_Inl [of ?F items e] by blast
  show ?case
  proof (cases "is_container x")
    case True
    with f have s: "serialize H x (indent + 1) = Inl e" by (simp split: sum.splits)
    show ?thesis by (rule "2.IH" [OF x True s])
  next
    case False
    with f have "serialize_value H x = Inl e" by (simp split: sum.splits)
    then show ?thesis by (rule serialize_value_error)
  qed
qed (auto dest: py_str_error)

lemma parse_error: "parse H txt = Inl e \<Longrightarrow> e = ValueError"
  using parse_loop_error_all [rule_format, of H 0 "split_nl (strip txt)" "[]" "[]" e]
  by (simp add: parse_def parse_lines_def)

lemma pair_of_error:
  "pair_of v = Inl e \<Longrightarrow> e = TypeError \<or> e = ValueError"
  by (induction v rule: pair_of.induct) auto

lemma update_pairs_error:
  "update_pairs H a items = Inl e \<Longrightarrow> e = TypeError \<or> e = ValueError"
  by (induction H a items rule: update_pairs.induct)
     (auto split: sum.splits dest: pair_of_error)

lemma attrib_update_error:
  "attrib_update H a v = Inl e \<Longrightarrow> e = TypeError \<or> e = ValueError"
  by (cases v) (auto split: if_splits dest: update_pairs_error)

text \<open>
  Induction over a value as \<open>_dict_to_element\<close> walks it: from a dict to its values
  and to the items of those values that are lists.
\<close>

lemma pyval_walk_induct [case_names scalar list dict]:
  assumes scalar: "\<And>v. \<not> is_container v \<Longrightarrow> P v"
    and list: "\<And>items. (\<And>x. x \<in> set items \<Longrightarrow> P x) \<Longrightarrow> P (PList items)"
    and dict: "\<And>data. (\<And>k v. (k, v) \<in> set data \<Longrightarrow> P v) \<Longrightarrow>
        (\<And>k items x. (k, PList items) \<in> set data \<Longrightarrow> x \<in> set items \<Longrightarrow> P x) \<Longrightarrow>
        P (PDict data)"
  shows "P v"
proof -
  have "P v \<and> (\<forall>items. v = PList items \<longrightarrow> (\<forall>x \<in> set items. P x))"
  proof (induction v)
    case (PList items)
    then show ?case using list by blast
  next
    case (PDict data)
    have a: "\<And>k v. (k, v) \<in> set data \<Longrightarrow> P v"
      using PDict.IH by fastforce
    have b: "\<And>k items x. (k, PList items) \<in> set data \<Longrightarrow> x \<in> set items \<Longrightarrow> P x"
      using PDict.IH by fastforce
    show ?case using dict [OF a b] by simp
  qed (simp_all add: scalar)
  then show ?thesis by simp
qed

lemma add_item_Inl:
  "add_item H key item el = Inl e \<Longrightarrow> dict_to_element H item key = Inl e"
  by (auto simp: add_item_def split: sum.splits)

lemma dict_to_element_error:
  "dict_to_element H v tg = Inl e \<Longrightarrow> e = TypeError \<or> e = ValueError"
proof (induction v arbitrary: tg e rule: pyval_walk_induct)
  case (scalar v)
  then show ?case by (cases v) (auto split: sum.splits dest: py_str_error)
next
  case (list items)
  show ?case
  proof (rule for_each_error [where f = "add_item H ''item''" and xs = items
        and P = "\<lambda>e. e = TypeError \<or> e = ValueError"])
    show "for_each (add_item H ''item'') items (Element tg [] None []) = Inl e"
      using list.prems by (simp add: dict_to_element_PList)
  next
    fix x s' e'
    assume "x \<in> set items" and "add_item H ''item'' x s' = Inl e'"
    then show "e' = TypeError \<or> e' = ValueError"
      using list.IH [of x "''item''" e'] by (auto dest: add_item_Inl)
  qed
next
  case (dict data)
  have entry: "e' = TypeError \<or> e' = ValueError"
    if x: "x \<in> set data" and f: "add_entry H x s' = Inl e'" for x s' e'
  proof -
    obtain k v where kv: "x = (k, v)" by (cases x)
    show ?thesis
    proof (cases "k = ''@attributes'' \<or> k = ''#text''")
      case True
      with f kv show ?thesis
        by (auto simp: add_entry_def split: if_splits sum.splits dest: py_str_error)
    next
      case False
      show ?thesis
      proof (cases v)
        case (PList items)
        with f kv False have "for_each (add_item H k) items s' = Inl e'"
          by (auto simp: add_entry_def)
        then show ?thesis
        proof (rule for_each_error
            [where P = "\<lambda>e. e = TypeError \<or> e = ValueError"])
          fix y s'' e''
          assume "y \<in> set items" and "add_item H k y s'' = Inl e''"
          then show "e'' = TypeError \<or> e'' = ValueError"
            using dict.IH(2) [of k items y k e''] x kv PList by (auto dest: add_item_Inl)
        qed
      next
        case PNone
        with f kv False show ?thesis
          using dict.IH(1) [of k v k e'] x
          by (auto simp: add_entry_def dest: add_item_Inl)
      next
        case (PBool b)
        with f kv False show ?thesis
          using dict.IH(1) [of k v k e'] x
          by (auto simp: add_entry_def dest: add_item_Inl)
      next
        case (PInt i)
        with f kv False show ?thesis
          using dict.IH(1) [of k v k e'] x
          by (auto simp: add_entry_def dest: add_item_Inl)
      next
        case (PFloat r)
        with f kv False show ?thesis
          using dict.IH(1) [of k v k e'] x
          by (auto simp: add_entry_def dest: add_item_Inl)
      next
        case (PStr s)
        with f kv False show ?thesis
          using dict.IH(1) [of k v k e'] x
          by (auto simp: add_entry_def dest: add_item_Inl)
      next
        case (PDict kvs)
        with f kv False show ?thesis
          using dict.IH(1) [of k v k e'] x
          by (auto simp: add_entry_def dest: add_item_Inl)
      qed
    qed
  qed
  show ?case
  proof (cases "case map_of data ''@attributes'' of None \<Rightarrow> Inr []
                | Some other \<Rightarrow> attrib_update H [] other")
    case (Inl e0)
    with dict.prems have "e0 = e" by (simp add: dict_to_element_PDict)
    with Inl show ?thesis
      by (auto split: option.splits dest: attrib_update_error)
  next
    case (Inr att)
    with dict.prems have "for_each (add_entry H) data (Element tg att None []) = Inl e"
      by (simp add: dict_to_element_PDict)
    then show ?thesis
      by (rule for_each_error
          [where P = "\<lambda>e. e = TypeError \<or> e = ValueError"])
        (rule entry)
  qed
qed

subsection \<open>Unsupported formats\<close>

lemma convert_parse_input_supported:
  assumes "input_format \<in> formats"
  shows "convert_parse_input H C input_format data_str root_name \<noteq> Inl (UnsupportedFormat msg)"
proof
  assume a: "convert_parse_input H C input_format data_str root_name = Inl (UnsupportedFormat msg)"
  from assms consider "input_format = ''json''" | "input_format = ''csv''"
    | "input_format = ''xml''" | "input_format = ''yaml''"
    by (auto simp: formats_def)
  then show False
  proof cases
    case 1
    with a show False
      by (simp add: convert_parse_input_def json_to_dict_def delegated_def split: sum.splits)
  next
    case 2
    with a show False
      by (simp add: convert_parse_input_def csv_to_dict_def delegated_def split: sum.splits)
  next
    case 3
    with a show False
      by (simp add: convert_parse_input_def xml_to_dict_def split: sum.splits)
  next
    case 4
    with a have "parse H data_str = Inl (UnsupportedFormat msg)"
      by (simp add: convert_parse_input_def yaml_to_dict_def)
    then show False by (auto dest: parse_error)
  qed
qed

lemma dict_to_csv_supported: "dict_to_csv H C data \<noteq> Inl (UnsupportedFormat msg)"
  by (auto simp: dict_to_csv_def delegated_def split: pyval.splits list.splits sum.splits)

lemma dict_to_xml_supported: "dict_to_xml H C data root_name pretty \<noteq> Inl (UnsupportedFormat msg)"
  by (auto simp: dict_to_xml_def delegated_def split: sum.splits dest: dict_to_element_error)

lemma convert_to_output_supported:
  assumes "output_format \<in> formats"
  shows "convert_to_output H C output_format data root_name \<noteq> Inl (UnsupportedFormat msg)"
proof -
  from assms consider "output_format = ''json''" | "output_format = ''csv''"
    | "output_format = ''xml''" | "output_format = ''yaml''"
    by (auto simp: formats_def)
  then show ?thesis
  proof cases
    case 1
    then show ?thesis
      by (simp add: convert_to_output_def dict_to_json_def delegated_def split: sum.splits)
  next
    case 2
    then show ?thesis
      by (simp add: convert_to_output_def dict_to_csv_supported)
  next
    case 3
    then show ?thesis
      by (simp add: convert_to_output_def dict_to_xml_supported
          split: pyval.splits list.splits prod.splits)
  next
    case 4
    then show ?thesis
      by (auto simp: convert_to_output_def dict_to_yaml_def dest: serialize_error)
  qed
qed

lemma convert_parse_input_unsupported:
  assumes "input_format \<notin> formats"
  shows "convert_parse_input H C input_format data_str root_name
    = Inl (UnsupportedFormat (''Unsupported input format: '' @ input_format))"
  using assms by (simp add: convert_parse_input_def formats_def)

lemma convert_to_output_unsupported:
  assumes "output_format \<notin> formats"
  shows "convert_to_output H C output_format data root_name
    = Inl (UnsupportedFormat (''Unsupported output format: '' @ output_format))"
  using assms by (simp add: convert_to_output_def formats_def)

text \<open>
  C7, as the code has it.  \<open>convert\<close> raises the unsupported-format error exactly when
  the input format is none of the four, or the input format is one of them, parsing the
  input succeeds, and the output format is none of the four.  The output format is only
  looked at after the input has been parsed.
\<close>

theorem convert_unsupported_iff:
  "(\<exists>msg. convert H C input_format output_format data_str root_name
       = Inl (UnsupportedFormat msg)) \<longleftrightarrow>
   input_format \<notin> formats \<or>
   (input_format \<in> formats \<and> output_format \<notin> formats \<and>
    (\<exists>data. convert_parse_input H C input_format data_str root_name = Inr data))"
proof (cases "input_format \<in> formats")
  case False
  then show ?thesis
    by (simp add: convert_def convert_parse_input_unsupported)
next
  case True
  show ?thesis
  proof (cases "convert_parse_input H C input_format data_str root_name")
    case (Inl e)
    with True convert_parse_input_supported [OF True, of H C data_str root_name]
    show ?thesis by (auto simp: convert_def)
  next
    case (Inr data)
    show ?thesis
    proof (cases "output_format \<in> formats")
      case True
      with Inr \<open>input_format \<in> formats\<close>
        convert_to_output_supported [OF True, of H C data root_name]
      show ?thesis by (auto simp: convert_def)
    next
      case False
      with Inr \<open>input_format \<in> formats\<close> show ?thesis
        by (simp add: convert_def convert_to_output_unsupported)
    qed
  qed
qed

theorem convert_unsupported_iff_witness:
  "(\<exists>msg. convert example_host example_codecs ''json'' ''toml'' ''{}'' ''root''
       = Inl (UnsupportedFormat msg)) \<and>
   (\<exists>msg. convert example_host example_codecs ''toml'' ''json'' ''{}'' ''root''
       = Inl (UnsupportedFormat msg)) \<and>
   \<not> (\<exists>msg. convert example_host example_codecs ''json'' ''json'' ''{}'' ''root''
       = Inl (UnsupportedFormat msg))"
proof -
  have p: "convert_parse_input example_host example_codecs ''json'' ''{}'' ''root''
      = Inr (PDict [])"
    by (simp add: convert_parse_input_def json_to_dict_def delegated_def example_codecs_def)
  have a: "\<exists>msg. convert example_host example_codecs ''json'' ''toml'' ''{}'' ''root''
       = Inl (UnsupportedFormat msg)"
    using convert_unsupported_iff
      [of example_host example_codecs "''json''" "''toml''" "''{}''" "''root''"] p
    by (simp add: formats_def)
  have b: "\<exists>msg. convert example_host example_codecs ''toml'' ''json'' ''{}'' ''root''
       = Inl (UnsupportedFormat msg)"
    using convert_unsupported_iff
      [of example_host example_codecs "''toml''" "''json''" "''{}''" "''root''"]
    by (simp add: formats_def)
  have c: "\<not> (\<exists>msg. convert example_host example_codecs ''json'' ''json'' ''{}'' ''root''
       = Inl (UnsupportedFormat msg))"
    using convert_unsupported_iff
      [of example_host example_codecs "''json''" "''json''" "''{}''" "''root''"]
    by (simp add: formats_def)
  from a b c show ?thesis by blast
qed

text \<open>
  C7, as the claim states it, fails: with the input format \<open>json\<close>, a text that is no
  JSON and an output format that is none of the four, \<open>convert\<close> raises the JSON
  parser's error and not the unsupported-format error.
\<close>

theorem convert_malformed_input_before_output_format:
  "''toml'' \<notin> formats \<and>
   convert example_host example_codecs ''json'' ''toml'' ''{invalid}'' ''root''
     = Inl (Delegated ''JSONDecodeError'')"
  by (simp add: formats_def convert_def convert_parse_input_def json_to_dict_def delegated_def
      example_codecs_def)

subsection \<open>Scalars of the block format\<close>

text \<open>
  C8.  The token that is the one character superscript two: \<open>isdigit\<close> accepts it,
  \<open>int\<close> does not, and \<open>_parse_value\<close> raises ValueError, where the claim has an
  Integer or, one rule further, a Text.
\<close>

theorem parse_value_superscript_digit: "parse_value H [CHR 0xB2] = Inl ValueError"
  by (simp add: parse_value_def isdigit_def is_digit_def is_decimal_def int_of_digits_def)

text \<open>
  C9.  \<open>serialize\<close> of a value that is neither a dict nor a list is \<open>str\<close> of it,
  whatever the indent: \<open>True\<close> for the boolean, \<open>None\<close> for the null, a text as it
  is.  \<open>_serialize_value\<close> writes \<open>true\<close>, \<open>null\<close>, and a text with a space or a
  colon in double quotes.
\<close>

theorem serialize_top_level_scalar:
  "(\<not> is_container v \<longrightarrow> serialize H v indent = py_str H v) \<and>
   serialize H (PBool True) indent = Inr ''True'' \<and>
   serialize_value H (PBool True) = Inr ''true'' \<and>
   serialize H PNone indent = Inr ''None'' \<and> serialize_value H PNone = Inr ''null'' \<and>
   serialize H (PStr s) indent = Inr s \<and>
   (CHR '' '' \<in> set s \<or> CHR '':'' \<in> set s \<longrightarrow>
      serialize_value H (PStr s) = Inr ([CHR 0x22] @ s @ [CHR 0x22]))"
  by (cases v) (auto simp: py_str_def serialize_value_def)

theorem serialize_top_level_scalar_witness:
  "serialize example_host (PStr ''a: b'') 0 = Inr ''a: b'' \<and>
   serialize_value example_host (PStr ''a: b'') = Inr ([CHR 0x22] @ ''a: b'' @ [CHR 0x22]) \<and>
   serialize example_host (PInt 7) 2 = Inr ''7''"
  using serialize_top_level_scalar [of "PInt 7" example_host 2 "''a: b''"]
    serialize_top_level_scalar [of "PInt 7" example_host 0 "''a: b''"]
  by (simp add: py_str_def str_int_def digit_char_def too_many_digits_def)

subsection \<open>A key with nothing after the colon\<close>

text \<open>
  C2.  The text of the two lines \<open>a:\<close> and \<open>b: 1\<close>: the line after \<open>a:\<close> is not
  more indented, and the parser goes on without storing \<open>a\<close>; the claim has \<open>a\<close>
  bound to Null.  The \<open>else\<close> that stores \<open>None\<close> belongs to the test for a next
  line, so it is only reached by a key on the last line.
\<close>

theorem parse_drops_key_before_sibling:
  "parse H (''a:'' @ [CHR 0x0A] @ ''b: 1'') = Inr (PDict [(''b'', PInt 1)])"
  by (simp add: parse_def parse_lines_def split_nl_def strip_def lstrip_def rstrip_def
      is_space_def parse_loop_Cons step_of_def Let_def startswith_def indent_of_def
      before_colon_def after_colon_def parse_value_def isdigit_def is_digit_def
      is_decimal_def int_of_digits_def digit_val_def finish_def too_many_digits_def)

subsection \<open>Where the two codecs cannot raise\<close>

declare str_nat.simps [simp del]


lemma set_before_colon: "set (before_colon s) \<subseteq> set s"
  using set_takeWhileD [of _ "\<lambda>c. c \<noteq> CHR '':''" s] by (auto simp: before_colon_def)























subsection \<open>Elements to values and back\<close>

lemma add_child_promote:
  "add_child t d R =
     (case map_of R t of
        None \<Rightarrow> AList.update t d R
      | Some v \<Rightarrow> AList.update t (promote v d) R)"
  by (auto simp: add_child_def split: option.splits pyval.splits)

lemma update_append_absent:
  "t \<notin> fst ` set R \<Longrightarrow> AList.update t x (R @ E) = R @ AList.update t x E"
  by (induction R) auto

lemma map_of_append_absent:
  "t \<notin> fst ` set R \<Longrightarrow> map_of (R @ E) t = map_of E t"
  by (induction R) auto

lemma add_child_append_absent:
  "t \<notin> fst ` set R \<Longrightarrow> add_child t d (R @ E) = R @ add_child t d E"
  by (simp add: add_child_promote update_append_absent map_of_append_absent
      del: map_of_append split: option.splits)

lemma fold_add_child_append:
  assumes "\<forall>c \<in> set ks. tag c \<notin> fst ` set R"
  shows "fold (\<lambda>c. add_child (tag c) (D c)) ks (R @ E)
    = R @ fold (\<lambda>c. add_child (tag c) (D c)) ks E"
  using assms by (induction ks arbitrary: E) (simp_all add: add_child_append_absent)

lemma add_child_head_same: "add_child t d ((t, v) # E) = (t, promote v d) # E"
  by (simp add: add_child_promote)

lemma add_child_head_other: "t \<noteq> t' \<Longrightarrow> add_child t d ((t', v) # E) = (t', v) # add_child t d E"
  by (simp add: add_child_promote split: option.splits)

lemma fold_add_child_head:
  "fold (\<lambda>c. add_child (tag c) (D c)) ks ((t, v) # E)
     = (t, fold (\<lambda>d v. promote v d) (map D (filter (\<lambda>c. tag c = t) ks)) v)
       # fold (\<lambda>c. add_child (tag c) (D c)) (filter (\<lambda>c. tag c \<noteq> t) ks) E"
proof (induction ks arbitrary: v E)
  case Nil
  show ?case by simp
next
  case (Cons k ks)
  show ?case
  proof (cases "tag k = t")
    case True
    then show ?thesis using Cons.IH [of "promote v (D k)" E]
      by (simp add: add_child_head_same)
  next
    case False
    then show ?thesis using Cons.IH [of v "add_child (tag k) (D k) E"]
      by (simp add: add_child_head_other)
  qed
qed

lemma fold_promote_list:
  "fold (\<lambda>d v. promote v d) ds (PList xs) = PList (xs @ ds)"
  by (induction ds arbitrary: xs) simp_all

lemma fold_promote:
  "\<not> is_list v \<Longrightarrow>
     fold (\<lambda>d v. promote v d) ds v = (if ds = [] then v else PList (v # ds))"
proof (cases ds)
  case Nil
  then show ?thesis by simp
next
  case (Cons d ds')
  assume "\<not> is_list v"
  then have "promote v d = PList [v, d]" by (cases v) simp_all
  with Cons show ?thesis by (simp add: fold_promote_list)
qed

lemma fold_add_child_entries:
  assumes "\<forall>c \<in> set ks. \<not> is_list (D c)"
  shows "fold (\<lambda>c. add_child (tag c) (D c)) ks [] = entries_of D ks"
  using assms
proof (induction D ks rule: entries_of.induct)
  case (1 D)
  show ?case by simp
next
  case (2 D c cs)
  have "fold (\<lambda>c. add_child (tag c) (D c)) (c # cs) []
      = fold (\<lambda>c. add_child (tag c) (D c)) cs [(tag c, D c)]"
    by (simp add: add_child_def)
  also have "\<dots> = (tag c, fold (\<lambda>d v. promote v d) (map D (filter (\<lambda>d. tag d = tag c) cs)) (D c))
      # fold (\<lambda>c. add_child (tag c) (D c)) (filter (\<lambda>d. tag d \<noteq> tag c) cs) []"
    by (rule fold_add_child_head)
  also have "fold (\<lambda>c. add_child (tag c) (D c)) (filter (\<lambda>d. tag d \<noteq> tag c) cs) []
      = entries_of D (filter (\<lambda>d. tag d \<noteq> tag c) cs)"
    using "2.IH" "2.prems" by simp
  also have "fold (\<lambda>d v. promote v d) (map D (filter (\<lambda>d. tag d = tag c) cs)) (D c)
      = (if filter (\<lambda>d. tag d = tag c) cs = [] then D c
         else PList (map D (c # filter (\<lambda>d. tag d = tag c) cs)))"
    using "2.prems" by (simp add: fold_promote)
  finally show ?case by simp
qed

lemma fst_entries_of: "fst ` set (entries_of D ks) \<subseteq> tag ` set ks"
  by (induction D ks rule: entries_of.induct) auto

lemma entries_of_empty: "entries_of D ks = [] \<longleftrightarrow> ks = []"
  by (cases ks) simp_all

lemma element_to_dict_fold:
  assumes "\<forall>c \<in> set kids. tag c \<noteq> ''@attributes'' \<and> tag c \<noteq> ''#text''"
  shows "(element_to_dict (Element tg attrs txt kids) :: 'f pyval)
    = simplify (attr_entry attrs @ text_entry txt
        @ fold (\<lambda>c. add_child (tag c) (element_to_dict c)) kids [])"
proof -
  let ?R = "attr_entry attrs @ text_entry txt :: (string \<times> 'f pyval) list"
  have r1: "(case txt of None \<Rightarrow> attr_entry attrs
      | Some t \<Rightarrow> if strip t \<noteq> [] then AList.update ''#text'' (PStr (strip t)) (attr_entry attrs)
                  else attr_entry attrs) = ?R"
    by (auto simp: attr_entry_def text_entry_def trimmed_def split: option.splits)
  have keys: "\<forall>c \<in> set kids. tag c \<notin> fst ` set ?R"
    using assms by (auto simp: attr_entry_def text_entry_def split: option.splits if_splits)
  have "(element_to_dict (Element tg attrs txt kids) :: 'f pyval)
      = simplify (fold (\<lambda>c. add_child (tag c) (element_to_dict c)) kids
          (case txt of None \<Rightarrow> attr_entry attrs
           | Some t \<Rightarrow>
               if strip t \<noteq> [] then AList.update ''#text'' (PStr (strip t)) (attr_entry attrs)
               else attr_entry attrs))"
    by (simp add: attr_entry_def Let_def cong: option.case_cong if_cong)
  also have "\<dots> = simplify (fold (\<lambda>c. add_child (tag c) (element_to_dict c)) kids (?R @ []))"
    by (simp only: r1 append_Nil2)
  also have "fold (\<lambda>c. add_child (tag c) (element_to_dict c)) kids (?R @ [])
      = ?R @ fold (\<lambda>c. add_child (tag c) (element_to_dict c)) kids []"
    using keys by (rule fold_add_child_append)
  finally show ?thesis by simp
qed

declare element_to_dict.simps [simp del]

lemma fst_add_child: "fst ` set (add_child t d R) = insert t (fst ` set R)"
  by (auto simp: add_child_promote dom_update split: option.splits)

lemma fst_fold_add_child:
  "fst ` set (fold (\<lambda>c. add_child (tag c) (D c)) ks E) = fst ` set E \<union> tag ` set ks"
  by (induction ks arbitrary: E) (auto simp: fst_add_child)

lemma simplify_dict:
  assumes "R \<noteq> []" and "\<forall>v. R \<noteq> [(''#text'', v)]"
  shows "simplify R = PDict R"
proof (cases R)
  case Nil
  with assms show ?thesis by simp
next
  case (Cons p R')
  obtain k v where p: "p = (k, v)" by (cases p)
  show ?thesis
  proof (cases R')
    case Nil
    with Cons p assms(2) have "k \<noteq> ''#text''" by auto
    with Nil Cons p show ?thesis by (simp add: simplify_def)
  next
    case (Cons q R'')
    with \<open>R = p # R'\<close> p show ?thesis by (simp add: simplify_def)
  qed
qed

lemma element_to_dict_not_list:
  assumes "plain t"
  shows "\<not> is_list (element_to_dict t :: 'f pyval)"
proof -
  obtain tg attrs tx kids where t: "t = Element tg attrs tx kids" by (cases t)
  let ?F = "fold (\<lambda>c. add_child (tag c) (element_to_dict c :: 'f pyval)) kids []"
  let ?R = "attr_entry attrs @ text_entry tx @ ?F"
  have tags: "\<forall>c \<in> set kids. tag c \<noteq> ''@attributes'' \<and> tag c \<noteq> ''#text''"
    using assms t by (simp add: list_all_iff)
  have e: "(element_to_dict t :: 'f pyval) = simplify ?R"
    unfolding t by (rule element_to_dict_fold [OF tags])
  have keys: "''#text'' \<notin> fst ` set ?F"
    using tags by (auto simp: fst_fold_add_child)
  show ?thesis
  proof (cases "\<exists>v. ?R = [(''#text'', v)]")
    case True
    then obtain v where v: "?R = [(''#text'', v)]" by blast
    then have a: "attr_entry attrs = ([] :: (string \<times> 'f pyval) list)"
      by (auto simp: attr_entry_def split: if_splits)
    have "v = PStr (the (trimmed tx))"
    proof (cases "trimmed tx")
      case None
      with v a have "?F = [(''#text'', v)]" by (simp add: text_entry_def)
      with keys show ?thesis by simp
    next
      case (Some s)
      with v a show ?thesis by (simp add: text_entry_def)
    qed
    with e v show ?thesis by (simp add: simplify_def)
  next
    case False
    show ?thesis
    proof (cases "?R = []")
      case True
      with e show ?thesis by (simp add: simplify_def)
    next
      case nonempty: False
      from simplify_dict [OF nonempty] False e show ?thesis by simp
    qed
  qed
qed

lemma element_to_dict_entries:
  assumes "plain (Element tg attrs txt kids)"
  shows "(element_to_dict (Element tg attrs txt kids) :: 'f pyval)
    = simplify (attr_entry attrs @ text_entry txt @ entries_of element_to_dict kids)"
proof -
  have tags: "\<forall>c \<in> set kids. tag c \<noteq> ''@attributes'' \<and> tag c \<noteq> ''#text''"
    using assms by (simp add: list_all_iff)
  have "\<forall>c \<in> set kids. \<not> is_list (element_to_dict c :: 'f pyval)"
  proof
    fix c
    assume "c \<in> set kids"
    with assms have "plain c" by (simp add: list_all_iff)
    then show "\<not> is_list (element_to_dict c :: 'f pyval)"
      by (rule element_to_dict_not_list)
  qed
  then have "fold (\<lambda>c. add_child (tag c) (element_to_dict c :: 'f pyval)) kids []
      = entries_of element_to_dict kids"
    by (rule fold_add_child_entries)
  moreover have "(element_to_dict (Element tg attrs txt kids) :: 'f pyval)
      = simplify (attr_entry attrs @ text_entry txt
          @ fold (\<lambda>c. add_child (tag c) (element_to_dict c)) kids [])"
    by (rule element_to_dict_fold [OF tags])
  ultimately show ?thesis by simp
qed

lemma add_entry_plain:
  "k \<noteq> ''@attributes'' \<Longrightarrow> k \<noteq> ''#text'' \<Longrightarrow> \<not> is_list v \<Longrightarrow>
     add_entry H (k, v) el = add_item H k v el"
  by (cases v) (simp_all add: add_entry_def)

lemma add_entry_list:
  "k \<noteq> ''@attributes'' \<Longrightarrow> k \<noteq> ''#text'' \<Longrightarrow>
     add_entry H (k, PList items) el = for_each (add_item H k) items el"
  by (simp add: add_entry_def)

lemma for_each_add_item:
  assumes "\<And>x. x \<in> set xs \<Longrightarrow> dict_to_element H (D x) t = Inr (R x)"
  shows "for_each (add_item H t) (map D xs) el
    = Inr (Element (tag el) (attrib el) (text_of el) (children el @ map R xs))"
  using assms
proof (induction xs arbitrary: el)
  case Nil
  show ?case by simp
next
  case (Cons x xs)
  have "add_item H t (D x) el = Inr (append_child (R x) el)"
    using Cons.prems [of x] by (simp add: add_item_def)
  then show ?case
    using Cons.IH [of "append_child (R x) el"] Cons.prems
    by (simp add: append_child_def)
qed

lemma for_each_entries:
  assumes "\<forall>c \<in> set ks. tag c \<noteq> ''@attributes'' \<and> tag c \<noteq> ''#text'' \<and> \<not> is_list (D c) \<and>
      (\<forall>g. dict_to_element H (D c) g = Inr (rebuilt g c))"
  shows "for_each (add_entry H) (entries_of D ks) el
    = Inr (Element (tag el) (attrib el) (text_of el)
        (children el @ map (\<lambda>c. rebuilt (tag c) c) (group_by_tag ks)))"
  using assms
proof (induction D ks arbitrary: el rule: entries_of.induct)
  case (1 D)
  show ?case by simp
next
  case (2 D c cs)
  let ?same = "filter (\<lambda>d. tag d = tag c) cs"
  let ?other = "filter (\<lambda>d. tag d \<noteq> tag c) cs"
  let ?v = "if ?same = [] then D c else PList (map D (c # ?same))"
  let ?el = "Element (tag el) (attrib el) (text_of el)
      (children el @ map (\<lambda>c. rebuilt (tag c) c) (c # ?same))"
  have c: "tag c \<noteq> ''@attributes''" "tag c \<noteq> ''#text''" "\<not> is_list (D c)"
    using "2.prems" by simp_all
  have each: "dict_to_element H (D x) (tag c) = Inr (rebuilt (tag x) x)"
    if "x \<in> set (c # ?same)" for x
  proof -
    from that have x: "tag x = tag c" and "x \<in> set (c # cs)" by auto
    with "2.prems" have "\<forall>g. dict_to_element H (D x) g = Inr (rebuilt g x)" by blast
    then show ?thesis using x by simp
  qed
  have head: "add_entry H (tag c, ?v) el = Inr ?el"
  proof (cases "?same = []")
    case True
    have "add_entry H (tag c, D c) el = add_item H (tag c) (D c) el"
      using c by (rule add_entry_plain)
    also have "\<dots> = for_each (add_item H (tag c)) (map D [c]) el"
      by (simp split: sum.splits)
    also have "\<dots> = Inr (Element (tag el) (attrib el) (text_of el)
        (children el @ map (\<lambda>c. rebuilt (tag c) c) [c]))"
      using each True by (intro for_each_add_item) simp
    finally show ?thesis using True by simp
  next
    case False
    have "add_entry H (tag c, PList (map D (c # ?same))) el
        = for_each (add_item H (tag c)) (map D (c # ?same)) el"
      using c(1,2) by (rule add_entry_list)
    also have "\<dots> = Inr ?el"
      using each by (intro for_each_add_item)
    finally show ?thesis using False by simp
  qed
  have rest: "for_each (add_entry H) (entries_of D ?other) ?el
      = Inr (Element (tag ?el) (attrib ?el) (text_of ?el)
          (children ?el @ map (\<lambda>c. rebuilt (tag c) c) (group_by_tag ?other)))"
    using "2.prems" by (intro "2.IH") simp
  show ?case
    using head rest by (simp del: entries_of.simps add: entries_of.simps(2) [of D c cs])
qed


lemma update_key_fresh:
  "\<forall>(k', v') \<in> set a. \<not> same_key H k' k \<Longrightarrow> update_key H k v a = a @ [(k, v)]"
  by (induction a) auto

lemma fold_update_key_distinct:
  "distinct (map fst A) \<Longrightarrow> fst ` set A \<inter> fst ` set B = {} \<Longrightarrow>
     fold (\<lambda>(k, v) a. update_key H (PStr k) v a) A (map (\<lambda>(k, v). (PStr k, v)) B)
       = map (\<lambda>(k, v). (PStr k, v)) (B @ A)"
proof (induction A arbitrary: B)
  case Nil
  show ?case by simp
next
  case (Cons p A)
  obtain k v where p: "p = (k, v)" by (cases p)
  have "k \<notin> fst ` set B" using Cons.prems(2) p by auto
  then have "\<forall>(k', v') \<in> set (map (\<lambda>(k, v). (PStr k, v)) B). \<not> same_key H k' (PStr k)"
    by (auto simp: image_iff)
  then have u: "update_key H (PStr k) v (map (\<lambda>(k, v). (PStr k, v)) B)
      = map (\<lambda>(k, v). (PStr k, v)) (B @ [(k, v)])"
    by (simp add: update_key_fresh)
  have "fold (\<lambda>(k, v) a. update_key H (PStr k) v a) A
        (map (\<lambda>(k, v). (PStr k, v)) (B @ [(k, v)]))
      = map (\<lambda>(k, v). (PStr k, v)) ((B @ [(k, v)]) @ A)"
    using Cons.prems p by (intro Cons.IH) (auto simp: image_iff)
  with u p show ?case by simp
qed

lemma tag_rebuilt: "tag (rebuilt g c) = g"
  by (cases c) simp

lemma group_by_tag_map:
  assumes "\<And>c. tag (f c) = tag c"
  shows "group_by_tag (map f cs) = map f (group_by_tag cs)"
proof (induction cs rule: group_by_tag.induct)
  case 1
  show ?case by simp
next
  case (2 c cs)
  have same: "filter (\<lambda>d. tag d = tag (f c)) (map f cs) = map f (filter (\<lambda>d. tag d = tag c) cs)"
    by (simp add: filter_map o_def assms)
  have other: "filter (\<lambda>d. tag d \<noteq> tag (f c)) (map f cs)
      = map f (filter (\<lambda>d. tag d \<noteq> tag c) cs)"
    by (simp add: filter_map o_def assms)
  show ?case
    using "2.IH" by (simp add: same other)
qed

lemma round_trip_node:
  assumes p: "plain (Element tg attrs tx kids)"
    and ih: "\<And>c g. c \<in> set kids \<Longrightarrow>
      dict_to_element H (element_to_dict c) g = Inr (rebuilt g c)"
  shows "dict_to_element H (element_to_dict (Element tg attrs tx kids)) g
    = Inr (rebuilt g (Element tg attrs tx kids))"
proof -
  let ?D = "map (\<lambda>(k, v). (k, PStr v)) attrs :: (string \<times> 'a pyval) list"
  let ?A = "map (\<lambda>(k, v). (PStr k, PStr v)) attrs :: ('a pyval \<times> 'a pyval) list"
  let ?E = "entries_of element_to_dict kids :: (string \<times> 'a pyval) list"
  let ?R = "attr_entry attrs @ text_entry tx @ ?E"
  let ?RB = "\<lambda>c. rebuilt (tag c) c :: 'a pyval element"
  have e: "element_to_dict (Element tg attrs tx kids) = simplify ?R"
    using p by (rule element_to_dict_entries)
  have tags: "\<forall>c \<in> set kids. tag c \<noteq> ''@attributes'' \<and> tag c \<noteq> ''#text''"
    using p by (simp add: list_all_iff)
  have Ekeys: "''@attributes'' \<notin> fst ` set ?E" "''#text'' \<notin> fst ` set ?E"
    using tags fst_entries_of [of element_to_dict kids] by auto
  have regroup: "group_by_tag (map ?RB kids) = map ?RB (group_by_tag kids)"
    by (rule group_by_tag_map) (simp add: tag_rebuilt)
  show ?thesis
  proof (cases "attrs = [] \<and> kids = []")
    case True
    show ?thesis
    proof (cases "trimmed tx")
      case None
      with True have "?R = []" by (simp add: attr_entry_def text_entry_def)
      with e True None show ?thesis by (simp add: simplify_def)
    next
      case (Some s)
      with True have "?R = [(''#text'', PStr s)]" by (simp add: attr_entry_def text_entry_def)
      with e True Some show ?thesis by (simp add: simplify_def py_str_def)
    qed
  next
    case False
    have nonempty: "?R \<noteq> []"
      using False by (auto simp: attr_entry_def entries_of_empty)
    have notext: "\<forall>v. ?R \<noteq> [(''#text'', v)]"
    proof (intro allI notI)
      fix v
      assume v: "?R = [(''#text'', v)]"
      then have a: "attrs = []" by (auto simp: attr_entry_def split: if_splits)
      with False have "?E \<noteq> []" by (simp add: entries_of_empty)
      with v a have "?E = [(''#text'', v)]"
        by (cases "trimmed tx") (auto simp: attr_entry_def text_entry_def)
      with Ekeys(2) show False by simp
    qed
    have d: "element_to_dict (Element tg attrs tx kids) = PDict ?R"
      using e simplify_dict [OF nonempty notext] by simp
    have att: "(case map_of ?R ''@attributes'' of None \<Rightarrow> Inr []
        | Some other \<Rightarrow> attrib_update H [] other) = Inr ?A"
    proof (cases "attrs = []")
      case True
      have "''@attributes'' \<notin> fst ` set ?R"
        using True Ekeys(1) by (auto simp: attr_entry_def text_entry_def split: option.splits)
      then have "map_of ?R ''@attributes'' = None"
        using map_of_eq_None_iff [of ?R "''@attributes''"] by blast
      with True show ?thesis by (simp del: map_of_append)
    next
      case False
      then have "map_of ?R ''@attributes'' = Some (PDict ?D)"
        by (simp add: attr_entry_def)
      moreover have "fold (\<lambda>(k, v) a. update_key H (PStr k) v a) ?D
            (map (\<lambda>(k, v). (PStr k, v)) [])
          = map (\<lambda>(k, v). (PStr k, v)) ([] @ ?D)"
        using p by (intro fold_update_key_distinct) (simp_all add: o_def case_prod_unfold)
      moreover have "map (\<lambda>(k, v). (PStr k, v)) ?D = ?A"
        by (simp add: o_def case_prod_unfold)
      ultimately show ?thesis by simp
    qed
    let ?el0 = "Element g ?A None [] :: 'a pyval element"
    let ?el1 = "Element g ?A (trimmed tx) [] :: 'a pyval element"
    have s1: "for_each (add_entry H) (attr_entry attrs) ?el0 = Inr ?el0"
      by (simp add: attr_entry_def add_entry_def)
    have s2: "for_each (add_entry H) (text_entry tx) ?el0 = Inr ?el1"
      by (cases "trimmed tx") (simp_all add: text_entry_def add_entry_def set_text_def py_str_def)
    have s3: "for_each (add_entry H) ?E ?el1
        = Inr (Element (tag ?el1) (attrib ?el1) (text_of ?el1)
            (children ?el1 @ map ?RB (group_by_tag kids)))"
    proof (rule for_each_entries, intro ballI conjI allI)
      fix c
      assume c: "c \<in> set kids"
      show "tag c \<noteq> ''@attributes''" "tag c \<noteq> ''#text''" using tags c by simp_all
      from p c have "plain c" by (simp add: list_all_iff)
      then show "\<not> is_list (element_to_dict c :: 'a pyval)"
        by (rule element_to_dict_not_list)
      fix g'
      show "dict_to_element H (element_to_dict c) g' = Inr (rebuilt g' c)"
        using c by (rule ih)
    qed
    have "for_each (add_entry H) ?R ?el0
        = Inr (Element g ?A (trimmed tx) (map ?RB (group_by_tag kids)))"
      using s1 s2 s3 by (simp add: for_each_append)
    with d att regroup False show ?thesis
      by (auto simp: dict_to_element_PDict)
  qed
qed

lemma round_trip:
  "plain t \<Longrightarrow> dict_to_element H (element_to_dict t) g = Inr (rebuilt g t)"
proof (induction t arbitrary: g)
  case (Element tg attrs tx kids)
  show ?case
  proof (rule round_trip_node)
    show "plain (Element tg attrs tx kids)" by fact
  next
    fix c g'
    assume c: "c \<in> set kids"
    with Element.prems have "plain c" by (simp add: list_all_iff)
    with c show "dict_to_element H (element_to_dict c) g' = Inr (rebuilt g' c)"
      by (rule Element.IH)
  qed
qed

lemma skeleton_rebuilt:
  "grouped t \<Longrightarrow>
     skeleton (rebuilt g t :: 'f pyval element)
       = skeleton (map_element PStr (Element g (attrib t) (text_of t) (children t)))"
proof (induction t arbitrary: g)
  case (Element tg attrs tx kids)
  let ?RB = "\<lambda>c. rebuilt (tag c) c :: 'f pyval element"
  have g: "group_by_tag kids = kids" and ks: "\<forall>c \<in> set kids. grouped c"
    using Element.prems by (simp_all add: list_all_iff)
  have regroup: "group_by_tag (map ?RB kids) = map ?RB kids"
    using group_by_tag_map [of ?RB kids] g by (simp add: tag_rebuilt)
  have kid: "skeleton (?RB c) = skeleton (map_element PStr c)" if "c \<in> set kids" for c
    using Element.IH [of c "tag c"] that ks by simp
  have attrs: "map (\<lambda>(k, v). (PStr k, PStr v)) attrs = map (map_prod PStr PStr) attrs"
    by (simp add: map_prod_def)
  have kids: "map skeleton (map ?RB kids) = map (skeleton \<circ> map_element PStr) kids"
    using kid by simp
  show ?case
  proof (cases "attrs = [] \<and> trimmed tx = None \<and> kids = []")
    case True
    then show ?thesis by simp
  next
    case False
    then have "rebuilt g (Element tg attrs tx kids)
        = (Element g (map (\<lambda>(k, v). (PStr k, PStr v)) attrs) (trimmed tx) (map ?RB kids)
            :: 'f pyval element)"
      using regroup by simp
    then show ?thesis
      using kids attrs by simp
  qed
qed

text \<open>
  C6, as the code has it.  For an element tree whose attribute names are distinct at
  every node and in which no element below the root is tagged \<open>@attributes\<close> or
  \<open>#text\<close>, \<open>_dict_to_element(_element_to_dict(t), g)\<close> returns the tree
  \<open>rebuilt g t\<close>: the root tagged \<open>g\<close>, every tag and attribute map below as in
  \<open>t\<close>, every text trimmed, the empty text on a node without attribute, text and
  child, and the children of every node grouped by tag.  When the same-tag children of
  every node of \<open>t\<close> are next to each other, tags and attributes come back exactly as
  in \<open>t\<close> with the root tagged \<open>g\<close>.
\<close>

theorem element_round_trip:
  "plain t \<Longrightarrow>
     dict_to_element H (element_to_dict t) g = Inr (rebuilt g t) \<and>
     (grouped t \<longrightarrow>
        skeleton (rebuilt g t :: 'f pyval element)
          = skeleton (map_element PStr (Element g (attrib t) (text_of t) (children t))))"
  using round_trip [of t H g] skeleton_rebuilt [of t g] by blast

theorem element_round_trip_witness:
  "plain (Element ''item'' [(''id'', ''7'')] (Some '' hi '') [Element ''name'' [] (Some ''W'') []]) \<and>
   grouped (Element ''item'' [(''id'', ''7'')] (Some '' hi '') [Element ''name'' [] (Some ''W'') []]) \<and>
   dict_to_element example_host
     (element_to_dict
        (Element ''item'' [(''id'', ''7'')] (Some '' hi '') [Element ''name'' [] (Some ''W'') []]))
     ''item''
     = Inr (Element ''item'' [(PStr ''id'', PStr ''7'')] (Some ''hi'')
         [Element ''name'' [] (Some ''W'') []])"
proof -
  let ?t = "Element ''item'' [(''id'', ''7'')] (Some '' hi '') [Element ''name'' [] (Some ''W'') []]"
  have p: "plain ?t" by simp
  have g: "grouped ?t" by simp
  have r: "(rebuilt ''item'' ?t :: string pyval element)
      = Element ''item'' [(PStr ''id'', PStr ''7'')] (Some ''hi'') [Element ''name'' [] (Some ''W'') []]"
    by (simp add: trimmed_def strip_def lstrip_def rstrip_def is_space_def)
  have "dict_to_element example_host (element_to_dict ?t) ''item''
      = Inr (rebuilt ''item'' ?t)"
    using element_round_trip [OF p, of example_host "''item''"] by (rule conjunct1)
  then have "dict_to_element example_host (element_to_dict ?t) ''item''
      = Inr (Element ''item'' [(PStr ''id'', PStr ''7'')] (Some ''hi'')
          [Element ''name'' [] (Some ''W'') []])"
    by (simp only: r)
  with p g show ?thesis by (intro conjI)
qed

text \<open>
  C6, as the claim states it, fails: the children \<open>x\<close>, \<open>y\<close>, \<open>x\<close> of a node come
  back in the order \<open>x\<close>, \<open>x\<close>, \<open>y\<close>.
\<close>

theorem element_round_trip_reorders_children:
  "dict_to_element example_host
     (element_to_dict
        (Element ''a'' [] None
           [Element ''x'' [] None [], Element ''y'' [] None [], Element ''x'' [] None []]))
     ''a''
   = Inr (Element ''a'' [] None
        [Element ''x'' [] (Some []) [], Element ''x'' [] (Some []) [],
         Element ''y'' [] (Some []) []]) \<and>
   map tag [Element ''x'' [] (Some []) [], Element ''x'' [] (Some []) [],
            Element ''y'' [] (Some []) [] :: string pyval element]
     \<noteq> map tag (children (Element ''a'' [] None
           [Element ''x'' [] None [], Element ''y'' [] None [], Element ''x'' [] None []
              :: string element]))"
proof -
  let ?t = "Element ''a'' [] None
     [Element ''x'' [] None [], Element ''y'' [] None [], Element ''x'' [] None []]"
  have p: "plain ?t" by simp
  have r: "(rebuilt ''a'' ?t :: string pyval element)
      = Element ''a'' [] None
          [Element ''x'' [] (Some []) [], Element ''x'' [] (Some []) [],
           Element ''y'' [] (Some []) []]"
    by (simp add: trimmed_def)
  have "dict_to_element example_host (element_to_dict ?t) ''a'' = Inr (rebuilt ''a'' ?t)"
    using p by (rule round_trip)
  then have "dict_to_element example_host (element_to_dict ?t) ''a''
      = Inr (Element ''a'' [] None
          [Element ''x'' [] (Some []) [], Element ''x'' [] (Some []) [],
           Element ''y'' [] (Some []) []])"
    by (simp only: r)
  then show ?thesis by simp
qed

subsection \<open>Texts, lines and numbers\<close>




lemma strip_Nil [simp]: "strip [] = []"
  by (simp add: strip_def lstrip_def rstrip_def)











lemma tight_append: "a \<noteq> [] \<Longrightarrow> \<not> is_space (hd a) \<Longrightarrow> b \<noteq> [] \<Longrightarrow> \<not> is_space (last b) \<Longrightarrow>
    tight (a @ b)"
  by (simp add: tight_def)










lemma replace1_same: "replace1 old old s = s"
  by (induction s) (auto simp: startswith_def append_eq_conv_conj)










subsection \<open>A scalar, written and read\<close>










subsection \<open>A line, written and read\<close>











subsection \<open>The lines of a value\<close>
















subsection \<open>The loop over the lines of a value\<close>








subsection \<open>Writing a value and reading it back\<close>




end
